theory Spec2Isabelle
  imports Main
begin

section \<open>The host's Date object\<close>

text \<open>
  \<^verbatim>\<open>src/lib/dates.ts\<close> computes with the JavaScript \<^verbatim>\<open>Date\<close> object. The part of it
  the module calls is modelled here after ECMA-262 (section "Date Objects"), with the
  names of its abstract operations. All numbers of the module are integers, so the
  model is over \<open>int\<close>; a number that can be \<^verbatim>\<open>NaN\<close> is an \<open>int option\<close> with \<open>None\<close>
  for \<^verbatim>\<open>NaN\<close>.

  Modelling decisions:
  \<^item> The module reads a Date only through its local-time getters, so a valid Date is
    represented by its local time value \<open>LocalTime(tv)\<close> in milliseconds.
  \<^item> The local time zone has a constant offset \<open>tz\<close> (milliseconds east of UTC), a
    parameter of every operation that converts between local time and UTC. Zones
    that change their offset are not modelled.
  \<^item> The range of time values (\<open>TimeClip\<close>) and the constructor's treatment of the
    years 0 to 99 are modelled as ECMA-262 defines them.
\<close>

definition msPerDay :: int where
  "msPerDay = 86400000"

definition msPerHour :: int where
  "msPerHour = 3600000"

definition msPerMinute :: int where
  "msPerMinute = 60000"

text \<open>The largest magnitude of a time value: 100,000,000 days from the epoch.\<close>

definition maxTime :: int where
  "maxTime = 8640000000000000"

definition Day :: "int \<Rightarrow> int" where
  "Day t = t div msPerDay"

definition TimeWithinDay :: "int \<Rightarrow> int" where
  "TimeWithinDay t = t mod msPerDay"

definition DaysInYear :: "int \<Rightarrow> int" where
  "DaysInYear y =
     (if y mod 4 \<noteq> 0 then 365
      else if y mod 100 \<noteq> 0 then 366
      else if y mod 400 \<noteq> 0 then 365
      else 366)"

definition DayFromYear :: "int \<Rightarrow> int" where
  "DayFromYear y =
     365 * (y - 1970) + (y - 1969) div 4 - (y - 1901) div 100 + (y - 1601) div 400"

text \<open>
  ECMA-262 specifies \<open>YearFromTime(t)\<close> as the largest \<open>y\<close> with
  \<open>TimeFromYear(y) \<le> t\<close>. \<open>YearFromDay\<close> computes it from the day number by the
  400-, 100-, 4- and 1-year cycles of the Gregorian calendar; lemma
  \<open>YearFromDay_bounds\<close> below shows that it meets the specification.
\<close>

definition YearFromDay :: "int \<Rightarrow> int" where
  "YearFromDay d =
     (let n = d + 719162;
          q400 = n div 146097;
          r400 = n mod 146097;
          c = min 3 (r400 div 36524);
          r100 = r400 - 36524 * c;
          q4 = r100 div 1461;
          r4 = r100 mod 1461;
          a = min 3 (r4 div 365)
      in 400 * q400 + 100 * c + 4 * q4 + a + 1)"

definition YearFromTime :: "int \<Rightarrow> int" where
  "YearFromTime t = YearFromDay (Day t)"

text \<open>\<open>InLeapYear\<close> as a number: 1 in a leap year, 0 otherwise.\<close>

definition leapDay :: "int \<Rightarrow> int" where
  "leapDay y = (if DaysInYear y = 366 then 1 else 0)"

definition InLeapYear :: "int \<Rightarrow> int" where
  "InLeapYear t = leapDay (YearFromTime t)"

definition DayWithinYear :: "int \<Rightarrow> int" where
  "DayWithinYear t = Day t - DayFromYear (YearFromTime t)"

text \<open>The day within the year on which month \<open>m\<close> (0 to 11) starts.\<close>

definition monthStart :: "int \<Rightarrow> int \<Rightarrow> int" where
  "monthStart m l =
     (if m = 0 then 0 else if m = 1 then 31 else if m = 2 then 59 + l
      else if m = 3 then 90 + l else if m = 4 then 120 + l else if m = 5 then 151 + l
      else if m = 6 then 181 + l else if m = 7 then 212 + l else if m = 8 then 243 + l
      else if m = 9 then 273 + l else if m = 10 then 304 + l else 334 + l)"

definition MonthFromTime :: "int \<Rightarrow> int" where
  "MonthFromTime t =
     (let n = DayWithinYear t; l = InLeapYear t
      in if n < 31 then 0 else if n < 59 + l then 1 else if n < 90 + l then 2
         else if n < 120 + l then 3 else if n < 151 + l then 4 else if n < 181 + l then 5
         else if n < 212 + l then 6 else if n < 243 + l then 7 else if n < 273 + l then 8
         else if n < 304 + l then 9 else if n < 334 + l then 10 else 11)"

definition DateFromTime :: "int \<Rightarrow> int" where
  "DateFromTime t = DayWithinYear t - monthStart (MonthFromTime t) (InLeapYear t) + 1"

text \<open>Day 0 (1 January 1970) was a Thursday; Sunday is 0.\<close>

definition WeekDay :: "int \<Rightarrow> int" where
  "WeekDay t = (Day t + 4) mod 7"

definition HourFromTime :: "int \<Rightarrow> int" where
  "HourFromTime t = (t div msPerHour) mod 24"

definition MinFromTime :: "int \<Rightarrow> int" where
  "MinFromTime t = (t div msPerMinute) mod 60"

definition MakeTime :: "int \<Rightarrow> int \<Rightarrow> int \<Rightarrow> int \<Rightarrow> int" where
  "MakeTime hour minute sec ms = hour * msPerHour + minute * msPerMinute + sec * 1000 + ms"

text \<open>
  \<open>MakeDay\<close>: the day number of the first of month \<open>mn\<close> of year \<open>ym\<close>, plus
  \<open>date - 1\<close>. A date outside the month runs over into the neighbouring months.
\<close>

definition MakeDay :: "int \<Rightarrow> int \<Rightarrow> int \<Rightarrow> int" where
  "MakeDay yr month date =
     (let ym = yr + month div 12; mn = month mod 12
      in DayFromYear ym + monthStart mn (leapDay ym) + date - 1)"

definition MakeDate :: "int \<Rightarrow> int \<Rightarrow> int" where
  "MakeDate day time = day * msPerDay + time"

text \<open>
  A Date object: \<open>InvalidDate\<close> when its time value is \<^verbatim>\<open>NaN\<close>, \<open>DateAt t\<close> when it is
  valid and \<open>t\<close> is its local time value.
\<close>

datatype Date = InvalidDate | DateAt int

text \<open>\<open>TimeClip(UTC(t))\<close> for a local time value \<open>t\<close>.\<close>

definition clipLocal :: "int \<Rightarrow> int \<Rightarrow> Date" where
  "clipLocal tz t = (if \<bar>t - tz\<bar> \<le> maxTime then DateAt t else InvalidDate)"

fun getTime :: "int \<Rightarrow> Date \<Rightarrow> int option" where
  "getTime tz InvalidDate = None"
| "getTime tz (DateAt t) = Some (t - tz)"

text \<open>\<^verbatim>\<open>new Date(value)\<close> for a number: the Date at that UTC time value.\<close>

fun Date_of_value :: "int \<Rightarrow> int option \<Rightarrow> Date" where
  "Date_of_value tz None = InvalidDate"
| "Date_of_value tz (Some v) = clipLocal tz (v + tz)"

fun getFullYear :: "Date \<Rightarrow> int option" where
  "getFullYear InvalidDate = None"
| "getFullYear (DateAt t) = Some (YearFromTime t)"

fun getMonth :: "Date \<Rightarrow> int option" where
  "getMonth InvalidDate = None"
| "getMonth (DateAt t) = Some (MonthFromTime t)"

fun getDate :: "Date \<Rightarrow> int option" where
  "getDate InvalidDate = None"
| "getDate (DateAt t) = Some (DateFromTime t)"

fun getDay :: "Date \<Rightarrow> int option" where
  "getDay InvalidDate = None"
| "getDay (DateAt t) = Some (WeekDay t)"

fun getHours :: "Date \<Rightarrow> int option" where
  "getHours InvalidDate = None"
| "getHours (DateAt t) = Some (HourFromTime t)"

fun getMinutes :: "Date \<Rightarrow> int option" where
  "getMinutes InvalidDate = None"
| "getMinutes (DateAt t) = Some (MinFromTime t)"

text \<open>
  \<^verbatim>\<open>date.setDate(n)\<close>: the day of the month is replaced, the time within the day
  is kept; the Date becomes invalid when it was invalid, when \<open>n\<close> is \<^verbatim>\<open>NaN\<close> or
  when the result is out of range. The model returns the Date after the update.
\<close>

fun setDate :: "int \<Rightarrow> Date \<Rightarrow> int option \<Rightarrow> Date" where
  "setDate tz (DateAt t) (Some dt) =
     clipLocal tz (MakeDate (MakeDay (YearFromTime t) (MonthFromTime t) dt) (TimeWithinDay t))"
| "setDate tz d n = InvalidDate"

text \<open>
  \<^verbatim>\<open>new Date(year, month, date, hours, minutes)\<close>: the fields are local time. A year
  from 0 to 99 stands for 1900 to 1999.
\<close>

fun Date_of_fields :: "int \<Rightarrow> int option \<Rightarrow> int option \<Rightarrow> int option \<Rightarrow> int \<Rightarrow> int \<Rightarrow> Date" where
  "Date_of_fields tz (Some y) (Some m) (Some dt) h mi =
     (let yr = (if 0 \<le> y \<and> y \<le> 99 then 1900 + y else y)
      in clipLocal tz (MakeDate (MakeDay yr m dt) (MakeTime h mi 0 0)))"
| "Date_of_fields tz y m dt h mi = InvalidDate"



section \<open>Label tables\<close>

text \<open>\<^verbatim>\<open>WEEKDAY_STRINGS\<close>, line 24 of the source.\<close>

definition WEEKDAY_STRINGS :: "string list" where
  "WEEKDAY_STRINGS = [''Mon'', ''Tue'', ''Wed'', ''Thu'', ''Fri'']"

text \<open>The decimal digits of a number, as a template literal prints it.\<close>

fun string_of_nat :: "nat \<Rightarrow> string" where
  "string_of_nat n =
     (if n < 10 then [''0123456789'' ! n]
      else string_of_nat (n div 10) @ [''0123456789'' ! (n mod 10)])"

text \<open>
  The two \<^verbatim>\<open>for\<close> loops of \<^verbatim>\<open>generateTimeslotStrings\<close>: for \<open>i\<close> up to \<open>hi\<close>,
  push the labels of \<open>i\<close>:00 and \<open>i\<close>:30 with the given suffix.
\<close>

function hourLoop :: "string \<Rightarrow> nat \<Rightarrow> nat \<Rightarrow> string list \<Rightarrow> string list" where
  "hourLoop suffix hi i res =
     (if i \<le> hi
      then hourLoop suffix hi (i + 1)
             (res @ [string_of_nat i @ '':00 '' @ suffix, string_of_nat i @ '':30 '' @ suffix])
      else res)"
  by pat_completeness auto
termination
  by (relation "measure (\<lambda>(suffix, hi, i, res). Suc hi - i)") auto

definition generateTimeslotStrings :: "string list" where
  "generateTimeslotStrings =
     (let res = hourLoop ''AM'' 11 8 [];
          res = res @ [''12:00 PM''];
          res = res @ [''12:30 PM''];
          res = hourLoop ''PM'' 9 1 res;
          res = res @ [''10:00 PM'']
      in res)"

definition TIMESLOT_STRINGS :: "string list" where
  "TIMESLOT_STRINGS = generateTimeslotStrings"

text \<open>\<^verbatim>\<open>Array.prototype.indexOf\<close>: the first index of the element, or -1.\<close>

fun indexOf_from :: "'a list \<Rightarrow> 'a \<Rightarrow> int \<Rightarrow> int" where
  "indexOf_from [] x k = - 1"
| "indexOf_from (y # ys) x k = (if y = x then k else indexOf_from ys x (k + 1))"

definition indexOf :: "'a list \<Rightarrow> 'a \<Rightarrow> int" where
  "indexOf xs x = indexOf_from xs x 0"

text \<open>\<^verbatim>\<open>xs[i]\<close> on an array: \<open>None\<close> is \<^verbatim>\<open>undefined\<close>, the value outside the array.\<close>

definition elemAt :: "'a list \<Rightarrow> int \<Rightarrow> 'a option" where
  "elemAt xs i = (if 0 \<le> i \<and> i < int (length xs) then Some (xs ! nat i) else None)"

text \<open>
  The \<^verbatim>\<open>%\<close> operator on integers: the remainder has the sign of the dividend.
  The module only divides by the constants 30 and 2.
\<close>

definition js_rem :: "int \<Rightarrow> int \<Rightarrow> int" where
  "js_rem a b = (if 0 \<le> a then a mod \<bar>b\<bar> else - ((- a) mod \<bar>b\<bar>))"

section \<open>Slot\<close>

text \<open>
  \<^verbatim>\<open>class Slot\<close> has the one field \<^verbatim>\<open>slot\<close>, the slot number. The model covers
  integer slot numbers.
\<close>

record Slot =
  slot :: int

definition weekday :: "Slot \<Rightarrow> int" where
  "weekday s = slot s div 30 + 1"

definition dayString :: "Slot \<Rightarrow> string option" where
  "dayString s = elemAt WEEKDAY_STRINGS (weekday s - 1)"

definition timeString :: "Slot \<Rightarrow> string option" where
  "timeString s = elemAt TIMESLOT_STRINGS (js_rem (slot s) 30)"

definition onDate :: "int \<Rightarrow> Slot \<Rightarrow> Date \<Rightarrow> Date" where
  "onDate tz s date =
     (let hour = js_rem (slot s) 30 div 2 + 8;
          minute = js_rem (slot s) 2 * 30
      in Date_of_fields tz (getFullYear date) (getMonth date) (getDate date) hour minute)"

definition startDate :: "int \<Rightarrow> Slot \<Rightarrow> Date" where
  "startDate tz s = onDate tz s (Date_of_fields tz (Some 2001) (Some 0) (Some (weekday s)) 0 0)"

subsection \<open>Slot objects and the cache\<close>

text \<open>
  Slot objects have an identity, and \<^verbatim>\<open>SLOT_OBJECTS\<close> is a module-level table from
  slot numbers to objects. The store holds every Slot object created so far, a
  reference being the object's position in \<open>objects\<close>, and the table.
\<close>

type_synonym ref = nat

record Store =
  objects :: "Slot list"
  SLOT_OBJECTS :: "int \<Rightarrow> ref option"

definition empty_store :: Store where
  "empty_store = \<lparr>objects = [], SLOT_OBJECTS = (\<lambda>n. None)\<rparr>"

definition deref :: "Store \<Rightarrow> ref \<Rightarrow> Slot option" where
  "deref h r = (if r < length (objects h) then Some (objects h ! r) else None)"

text \<open>\<^verbatim>\<open>new Slot(n)\<close>: a fresh object.\<close>

definition new_Slot :: "Store \<Rightarrow> int \<Rightarrow> ref \<times> Store" where
  "new_Slot h n = (length (objects h), h\<lparr>objects := objects h @ [\<lparr>slot = n\<rparr>]\<rparr>)"

definition fromSlotNumber :: "Store \<Rightarrow> int \<Rightarrow> ref \<times> Store" where
  "fromSlotNumber h n =
     (case SLOT_OBJECTS h n of
        None \<Rightarrow>
          (let (r, h') = new_Slot h n
           in (r, h'\<lparr>SLOT_OBJECTS := (SLOT_OBJECTS h')(n := Some r)\<rparr>))
      | Some r \<Rightarrow> (r, h))"

text \<open>
  The slot number \<^verbatim>\<open>fromStartDate\<close> computes; \<open>None\<close> is \<^verbatim>\<open>NaN\<close>, the number it
  computes from an invalid Date.
\<close>

definition startDate_number :: "Date \<Rightarrow> int option" where
  "startDate_number date =
     (case (getDay date, getHours date, getMinutes date) of
        (Some wd, Some h, Some mi) \<Rightarrow> Some (30 * (wd - 1) + 2 * (h - 8) + mi div 30)
      | _ \<Rightarrow> None)"

text \<open>
  \<^verbatim>\<open>fromStartDate\<close> calls \<^verbatim>\<open>new Slot\<close> itself. For an invalid Date the source builds a
  Slot whose number is \<^verbatim>\<open>NaN\<close>, which is outside the model: \<open>None\<close>.
\<close>

definition fromStartDate :: "Store \<Rightarrow> Date \<Rightarrow> (ref \<times> Store) option" where
  "fromStartDate h date = map_option (new_Slot h) (startDate_number date)"

definition dayString_number :: "string \<Rightarrow> string \<Rightarrow> int" where
  "dayString_number day time = 30 * indexOf WEEKDAY_STRINGS day + indexOf TIMESLOT_STRINGS time"

definition fromDayString :: "Store \<Rightarrow> string \<Rightarrow> string \<Rightarrow> ref \<times> Store" where
  "fromDayString h day time = fromSlotNumber h (dayString_number day time)"

definition add :: "Store \<Rightarrow> Slot \<Rightarrow> int \<Rightarrow> ref \<times> Store" where
  "add h s slots = fromSlotNumber h (slot s + slots)"

section \<open>Term\<close>

text \<open>
  The fields of \<^verbatim>\<open>class Term\<close> as the constructor leaves them: the dates are the
  parsed Date objects (invalid when the string did not parse), \<open>mondaySchedule\<close>
  is \<open>None\<close> when it is \<^verbatim>\<open>undefined\<close>. The field \<^verbatim>\<open>end\<close> is \<open>termEnd\<close> here. The
  getters that build the names of a term from \<open>year\<close> and \<open>semester\<close> are not
  modelled.
\<close>

record Term =
  year :: string
  semester :: string
  start :: Date
  h1End :: Date
  h2Start :: Date
  termEnd :: Date
  mondaySchedule :: "Date option"
  holidays :: "Date list"

text \<open>
  The constructor's \<^verbatim>\<open>midnight\<close> on a string \<^verbatim>\<open>YYYY-MM-DD\<close> that names the day
  \<open>d\<close> of month \<open>m\<close> (1 to 12) of year \<open>y\<close>: \<^verbatim>\<open>new Date("YYYY-MM-DDT00:00:00")\<close> is
  local midnight of that day. A date-time string takes the year as written. A
  string that does not parse, such as the default \<^verbatim>\<open>""\<close>, gives \<open>InvalidDate\<close>.
\<close>

definition midnight :: "int \<Rightarrow> int \<Rightarrow> int \<Rightarrow> int \<Rightarrow> Date" where
  "midnight tz y m d = clipLocal tz (MakeDate (MakeDay y (m - 1) d) 0)"

text \<open>
  The bodies of the two \<^verbatim>\<open>while\<close> loops: \<^verbatim>\<open>date.setDate(date.getDate() + 1)\<close> and
  \<^verbatim>\<open>date.setDate(date.getDate() - 1)\<close>. The sum is \<^verbatim>\<open>NaN\<close> when the Date is invalid.
\<close>

definition forwardStep :: "int \<Rightarrow> Date \<Rightarrow> Date" where
  "forwardStep tz date = setDate tz date (map_option (\<lambda>n. n + 1) (getDate date))"

definition backwardStep :: "int \<Rightarrow> Date \<Rightarrow> Date" where
  "backwardStep tz date = setDate tz date (map_option (\<lambda>n. n - 1) (getDate date))"

text \<open>
  The \<^verbatim>\<open>while\<close> loops of \<^verbatim>\<open>startDateFor\<close> and \<^verbatim>\<open>endDateFor\<close>. Each may run forever,
  so each is a partial function: \<open>None\<close> means that the loop does not end. The test
  \<^verbatim>\<open>date.getDay() !== slot.weekday\<close> holds when the Date is invalid (\<^verbatim>\<open>NaN\<close>).
\<close>

partial_function (option) forwardLoop :: "int \<Rightarrow> int \<Rightarrow> Date \<Rightarrow> Date option" where
  "forwardLoop tz wd date =
     (if getDay date \<noteq> Some wd then forwardLoop tz wd (forwardStep tz date) else Some date)"

partial_function (option) backwardLoop :: "int \<Rightarrow> int \<Rightarrow> Date \<Rightarrow> Date option" where
  "backwardLoop tz wd date =
     (if getDay date \<noteq> Some wd then backwardLoop tz wd (backwardStep tz date) else Some date)"

declare forwardLoop.simps [code]
declare backwardLoop.simps [code]

text \<open>
  \<^verbatim>\<open>startDateFor\<close> and \<^verbatim>\<open>endDateFor\<close>: \<open>None\<close> when the loop does not end, otherwise
  the Date returned. The loop works on a copy, \<^verbatim>\<open>new Date(d.getTime())\<close>.
\<close>

definition startDateFor :: "int \<Rightarrow> Term \<Rightarrow> Slot \<Rightarrow> bool \<Rightarrow> Date option" where
  "startDateFor tz t s secondHalf =
     (case forwardLoop tz (weekday s)
             (Date_of_value tz (getTime tz (if secondHalf then h2Start t else start t))) of
        None \<Rightarrow> None
      | Some date \<Rightarrow> Some (onDate tz s date))"

definition endDateFor :: "int \<Rightarrow> Term \<Rightarrow> Slot \<Rightarrow> bool \<Rightarrow> Date option" where
  "endDateFor tz t s firstHalf =
     (case backwardLoop tz (weekday s)
             (Date_of_value tz (getTime tz (if firstHalf then h1End t else termEnd t))) of
        None \<Rightarrow> None
      | Some date \<Rightarrow> Some (onDate tz s (forwardStep tz date)))"


text \<open>
  \<^verbatim>\<open>rDateFor\<close>: a Date object is truthy, also an invalid one, so the second
  conjunct of the test asks whether \<open>mondaySchedule\<close> is set. \<open>None\<close> is
  \<^verbatim>\<open>undefined\<close>.
\<close>

definition rDateFor :: "int \<Rightarrow> Term \<Rightarrow> Slot \<Rightarrow> Date option" where
  "rDateFor tz t s =
     (if weekday s = 1
      then (case mondaySchedule t of
              None \<Rightarrow> None
            | Some date \<Rightarrow> Some (onDate tz s date))
      else None)"

section \<open>Notions of the specification\<close>

text \<open>
  The weekday of day number \<open>n\<close> (days since 1 January 1970, a Thursday), Sunday
  being 0: \<open>WeekDay t = dayOfWeek (Day t)\<close>.
\<close>

definition dayOfWeek :: "int \<Rightarrow> int" where
  "dayOfWeek n = (n + 4) mod 7"

text \<open>
  The first day on or after day \<open>n\<close>, and the last day on or before it, that falls
  on weekday \<open>wd\<close>. The theorems that use them state what they are.
\<close>

definition firstOnOrAfter :: "int \<Rightarrow> int \<Rightarrow> int" where
  "firstOnOrAfter wd n = n + (wd - dayOfWeek n) mod 7"

definition lastOnOrBefore :: "int \<Rightarrow> int \<Rightarrow> int" where
  "lastOnOrBefore wd n = n - (dayOfWeek n - wd) mod 7"

text \<open>
  The time of day of the slot with index \<open>i\<close> as the specification gives it: hour
  \<open>floor((i mod 30) / 2) + 8\<close> and minute \<open>((i mod 30) mod 2) * 30\<close>.
\<close>

definition spec_hour :: "int \<Rightarrow> int" where
  "spec_hour i = (i mod 30) div 2 + 8"

definition spec_minute :: "int \<Rightarrow> int" where
  "spec_minute i = ((i mod 30) mod 2) * 30"

definition spec_time :: "int \<Rightarrow> int" where
  "spec_time i = MakeTime (spec_hour i) (spec_minute i) 0 0"

text \<open>
  The label of the time \<open>m\<close> minutes after midnight on a 12-hour clock, such as
  \<open>9:30 AM\<close>. A table runs from 8:00 AM to 10:00 PM in steps of 30 minutes when
  it holds the labels of the minutes 480, 510 and so on up to 1320.
\<close>

definition time_label :: "nat \<Rightarrow> string" where
  "time_label m =
     (let h = m div 60; mi = m mod 60
      in string_of_nat (if h mod 12 = 0 then 12 else h mod 12) @ '':'' @
         (if mi < 10 then ''0'' else []) @ string_of_nat mi @ '' '' @
         (if h < 12 then ''AM'' else ''PM''))"

text \<open>
  A store in which the cache is sound: the object the table holds for a slot
  number has that number. The empty store is, and the functions of the module keep
  it so.
\<close>

definition store_ok :: "Store \<Rightarrow> bool" where
  "store_ok h = (\<forall>n r. SLOT_OBJECTS h n = Some r \<longrightarrow> deref h r = Some \<lparr>slot = n\<rparr>)"


text \<open>A local time value that \<open>TimeClip\<close> keeps.\<close>

definition representable :: "int \<Rightarrow> int \<Rightarrow> bool" where
  "representable tz t = (\<bar>t - tz\<bar> \<le> maxTime)"

text \<open>A local time value at least a week inside the range of time values.\<close>

definition well_inside :: "int \<Rightarrow> int \<Rightarrow> bool" where
  "well_inside tz t = (\<bar>t - tz\<bar> + 7 * msPerDay \<le> maxTime)"

text \<open>A year that the Date constructor takes as it is.\<close>

definition plain_year :: "int \<Rightarrow> bool" where
  "plain_year y = (y < 0 \<or> 99 < y)"


section \<open>Example values\<close>

text \<open>
  The term of the specification's scenario, in a zone with offset 0: fall 2022,
  classes from 7 September to 14 December, the first half ending on 28 October and
  the second starting on 31 October, with a holiday on Monday 10 October and one
  on Friday 11 November, and with Tuesday 11 October on Monday schedule.
\<close>

definition term_f22 :: Term where
  "term_f22 =
     \<lparr>year = ''22'', semester = ''f'',
      start = midnight 0 2022 9 7, h1End = midnight 0 2022 10 28,
      h2Start = midnight 0 2022 10 31, termEnd = midnight 0 2022 12 14,
      mondaySchedule = Some (midnight 0 2022 10 11),
      holidays = [midnight 0 2022 10 10, midnight 0 2022 11 11]\<rparr>"

text \<open>A term whose dates are in the year 50: from 3 January to 12 May 0050.\<close>

definition term_year_50 :: Term where
  "term_year_50 =
     \<lparr>year = ''50'', semester = ''s'',
      start = midnight 0 50 1 3, h1End = midnight 0 50 3 4,
      h2Start = midnight 0 50 3 7, termEnd = midnight 0 50 5 12,
      mondaySchedule = None, holidays = []\<rparr>"

text \<open>A term built without its date strings: every date is invalid.\<close>

definition term_no_dates :: Term where
  "term_no_dates =
     \<lparr>year = ''22'', semester = ''f'',
      start = InvalidDate, h1End = InvalidDate, h2Start = InvalidDate, termEnd = InvalidDate,
      mondaySchedule = None, holidays = []\<rparr>"

text \<open>
  A term at the limits of the range of time values, in a zone with offset 0: it
  starts and ends on 13 September 275760, the last day a Date can hold, and its
  first half ends on 20 April -271821, the first such day.
\<close>

definition term_range_limits :: Term where
  "term_range_limits =
     \<lparr>year = ''60'', semester = ''f'',
      start = midnight 0 275760 9 13, h1End = midnight 0 (- 271821) 4 20,
      h2Start = midnight 0 275760 9 13, termEnd = midnight 0 275760 9 13,
      mondaySchedule = None, holidays = []\<rparr>"

text \<open>
  The term \<open>term_year_50\<close> with a holiday on Monday 3 January 0050 and with
  Tuesday 4 January 0050 on Monday schedule.
\<close>

definition term_year_50_dates :: Term where
  "term_year_50_dates =
     term_year_50\<lparr>mondaySchedule := Some (midnight 0 50 1 4),
                   holidays := [midnight 0 50 1 3]\<rparr>"

text \<open>
  The term \<open>term_range_limits\<close> with a holiday on Saturday 13 September 275760,
  the last day a Date can hold, and with that day on Monday schedule.
\<close>

definition term_range_limits_dates :: Term where
  "term_range_limits_dates =
     term_range_limits\<lparr>mondaySchedule := Some (midnight 0 275760 9 13),
                        holidays := [midnight 0 275760 9 13]\<rparr>"

section \<open>Facts about the Date model\<close>

subsection \<open>Division\<close>

lemma div_split: "(m * k + r) div m = k" if "0 \<le> r" "r < m" for m k r :: int
  using that by (simp add: div_pos_pos_trivial)

lemma div_shift: "(x - k * m) div m = x div m - k" if "m \<noteq> 0" for x k m :: int
proof -
  have "(x + (- k) * m) div m = - k + x div m" using that by (rule div_mult_self1)
  then show ?thesis by simp
qed

lemma div_succ:
  fixes x m :: int
  assumes "0 < m"
  shows "(x + 1) div m = x div m + (if (x + 1) mod m = 0 then 1 else 0)"
proof -
  define k where "k = x div m"
  define r where "r = x mod m"
  have x: "x = m * k + r" and r: "0 \<le> r" "r < m" using assms by (simp_all add: k_def r_def)
  show ?thesis
  proof (cases "r + 1 < m")
    case True
    have "(m * k + (r + 1)) div m = k" using r True by (intro div_split) auto
    moreover have "(m * k + (r + 1)) mod m = r + 1" using r True by simp
    ultimately show ?thesis using r unfolding k_def[symmetric] x by (simp add: add.assoc)
  next
    case False
    then have "x + 1 = m * (k + 1) + 0" using r x by (simp add: algebra_simps)
    then have "(x + 1) div m = k + 1" "(x + 1) mod m = 0" using assms by simp_all
    then show ?thesis by (simp add: k_def)
  qed
qed

subsection \<open>Years\<close>

text \<open>
  \<open>YearFromDay\<close> meets the specification of \<open>YearFromTime\<close>: it is the largest year
  that starts on or before the day (\<open>YearFromDay_bounds\<close>, \<open>YearFromDay_greatest\<close>).
\<close>

lemma DayFromYear_alt:
  "DayFromYear y = 365 * (y - 1) + (y - 1) div 4 - (y - 1) div 100 + (y - 1) div 400 - 719162"
proof -
  have a: "(y - 1969) div 4 = (y - 1) div 4 - 492" using div_shift[of 4 "y - 1" 492] by simp
  have b: "(y - 1901) div 100 = (y - 1) div 100 - 19" using div_shift[of 100 "y - 1" 19] by simp
  have c: "(y - 1601) div 400 = (y - 1) div 400 - 4" using div_shift[of 400 "y - 1" 4] by simp
  show ?thesis unfolding DayFromYear_def a b c by simp
qed

lemma cycle_divs:
  fixes q c q4 a :: int
  assumes "0 \<le> c" "c \<le> 3" "0 \<le> q4" "q4 \<le> 24" "0 \<le> a" "a \<le> 3"
  shows "(400 * q + 100 * c + 4 * q4 + a) div 4 = 100 * q + 25 * c + q4"
    and "(400 * q + 100 * c + 4 * q4 + a) div 100 = 4 * q + c"
    and "(400 * q + 100 * c + 4 * q4 + a) div 400 = q"
proof -
  have "400 * q + 100 * c + 4 * q4 + a = 4 * (100 * q + 25 * c + q4) + a" by simp
  then show "(400 * q + 100 * c + 4 * q4 + a) div 4 = 100 * q + 25 * c + q4"
    using div_split[of a 4 "100 * q + 25 * c + q4"] assms by simp
  have "400 * q + 100 * c + 4 * q4 + a = 100 * (4 * q + c) + (4 * q4 + a)" by simp
  then show "(400 * q + 100 * c + 4 * q4 + a) div 100 = 4 * q + c"
    using div_split[of "4 * q4 + a" 100 "4 * q + c"] assms by simp
  have "400 * q + 100 * c + 4 * q4 + a = 400 * q + (100 * c + 4 * q4 + a)" by simp
  then show "(400 * q + 100 * c + 4 * q4 + a) div 400 = q"
    using div_split[of "100 * c + 4 * q4 + a" 400 q] assms by simp
qed

lemma DayFromYear_cycle:
  fixes q c q4 a :: int
  assumes "0 \<le> c" "c \<le> 3" "0 \<le> q4" "q4 \<le> 24" "0 \<le> a" "a \<le> 3"
  shows "DayFromYear (400 * q + 100 * c + 4 * q4 + a + 1) =
           146097 * q + 36524 * c + 1461 * q4 + 365 * a - 719162"
  unfolding DayFromYear_alt using cycle_divs[OF assms, of q] by simp

lemma YearFromDay_bounds:
  "DayFromYear (YearFromDay d) \<le> d \<and> d < DayFromYear (YearFromDay d + 1)"
proof -
  define n where "n = d + 719162"
  define q where "q = n div 146097"
  define r400 where "r400 = n mod 146097"
  define c where "c = min 3 (r400 div 36524)"
  define r100 where "r100 = r400 - 36524 * c"
  define q4 where "q4 = r100 div 1461"
  define r4 where "r4 = r100 mod 1461"
  define a where "a = min 3 (r4 div 365)"
  have Y: "YearFromDay d = 400 * q + 100 * c + 4 * q4 + a + 1"
    by (simp add: YearFromDay_def Let_def n_def q_def r400_def c_def r100_def q4_def r4_def a_def)
  have n: "n = 146097 * q + r400" by (simp add: q_def r400_def)
  have r400: "0 \<le> r400" "r400 < 146097" by (simp_all add: r400_def)
  define kc where "kc = r400 div 36524"
  define mc where "mc = r400 mod 36524"
  have kc: "r400 = 36524 * kc + mc" "0 \<le> mc" "mc < 36524" by (simp_all add: kc_def mc_def)
  have kc0: "0 \<le> kc" using r400 by (simp add: kc_def pos_imp_zdiv_nonneg_iff)
  have kc4: "kc \<le> 4" using kc r400 by linarith
  have c_eq: "c = (if 3 \<le> kc then 3 else kc)" by (simp add: c_def kc_def min_def)
  have c: "0 \<le> c" "c \<le> 3" using kc0 by (simp_all add: c_eq)
  have r100: "0 \<le> r100" "r100 \<le> 36524" "c < 3 \<Longrightarrow> r100 < 36524"
  proof -
    show "0 \<le> r100" using kc by (simp add: r100_def c_eq)
    show "r100 \<le> 36524" using kc kc4 r400 by (simp add: r100_def c_eq)
    assume "c < 3"
    then have "c = kc" by (simp add: c_eq split: if_splits)
    then show "r100 < 36524" using kc by (simp add: r100_def)
  qed
  have r100_split: "r100 = 1461 * q4 + r4" by (simp add: q4_def r4_def)
  have r4: "0 \<le> r4" "r4 < 1461" by (simp_all add: r4_def)
  have q4: "0 \<le> q4" "q4 \<le> 24"
    using r100 r100_split r4 by linarith+
  define k where "k = r4 div 365"
  define m where "m = r4 mod 365"
  have k: "r4 = 365 * k + m" "0 \<le> m" "m < 365" by (simp_all add: k_def m_def)
  have k0: "0 \<le> k" using r4 by (simp add: k_def pos_imp_zdiv_nonneg_iff)
  have a_eq: "a = (if 3 \<le> k then 3 else k)" by (simp add: a_def k_def min_def)
  have a: "0 \<le> a" "a \<le> 3" using k0 by (simp_all add: a_eq)
  have a_lo: "365 * a \<le> r4"
  proof (cases "3 \<le> k")
    case True
    then show ?thesis using k by (simp add: a_eq)
  next
    case False
    then show ?thesis using k by (simp add: a_eq)
  qed
  have a_hi: "r4 < 365 * (a + 1)" if "a < 3"
  proof -
    have "a = k" using that by (simp add: a_eq split: if_splits)
    then show ?thesis using k by simp
  qed
  have d: "d = 146097 * q + 36524 * c + 1461 * q4 + r4 - 719162"
    using n r100_split unfolding n_def r100_def by linarith
  have lo: "DayFromYear (YearFromDay d) \<le> d"
    unfolding Y DayFromYear_cycle[OF c q4 a] using d a_lo by linarith
  have hi: "d < DayFromYear (YearFromDay d + 1)"
  proof (cases "a < 3")
    case True
    have "YearFromDay d + 1 = 400 * q + 100 * c + 4 * q4 + (a + 1) + 1" by (simp add: Y)
    moreover have "0 \<le> a + 1" "a + 1 \<le> 3" using a True by linarith+
    ultimately have "DayFromYear (YearFromDay d + 1) =
        146097 * q + 36524 * c + 1461 * q4 + 365 * (a + 1) - 719162"
      using DayFromYear_cycle[OF c q4, of "a + 1" q] by simp
    then show ?thesis using d a_hi[OF True] by linarith
  next
    case False
    then have a3: "a = 3" using a by linarith
    show ?thesis
    proof (cases "q4 < 24")
      case True
      have "YearFromDay d + 1 = 400 * q + 100 * c + 4 * (q4 + 1) + 0 + 1" by (simp add: Y a3)
      moreover have "0 \<le> q4 + 1" "q4 + 1 \<le> 24" using q4 True by linarith+
      ultimately have "DayFromYear (YearFromDay d + 1) =
          146097 * q + 36524 * c + 1461 * (q4 + 1) + 365 * 0 - 719162"
        using DayFromYear_cycle[OF c, of "q4 + 1" 0 q] by simp
      then show ?thesis using d r4 by simp
    next
      case False
      then have q24: "q4 = 24" using q4 by linarith
      show ?thesis
      proof (cases "c < 3")
        case True
        have "YearFromDay d + 1 = 400 * q + 100 * (c + 1) + 4 * 0 + 0 + 1"
          by (simp add: Y a3 q24)
        moreover have "0 \<le> c + 1" "c + 1 \<le> 3" using c True by linarith+
        ultimately have "DayFromYear (YearFromDay d + 1) =
            146097 * q + 36524 * (c + 1) + 1461 * 0 + 365 * 0 - 719162"
          using DayFromYear_cycle[of "c + 1" 0 0 q] by simp
        moreover have "r4 < 1460" using r100(3)[OF True] r100_split q24 by linarith
        ultimately show ?thesis using d q24 by simp
      next
        case False
        then have c3: "c = 3" using c by linarith
        have "YearFromDay d + 1 = 400 * (q + 1) + 100 * 0 + 4 * 0 + 0 + 1"
          by (simp add: Y a3 q24 c3)
        then have "DayFromYear (YearFromDay d + 1) =
            146097 * (q + 1) + 36524 * 0 + 1461 * 0 + 365 * 0 - 719162"
          using DayFromYear_cycle[of 0 0 0 "q + 1"] by simp
        then show ?thesis using d q24 c3 r4 by simp
      qed
    qed
  qed
  show ?thesis using lo hi by simp
qed

lemma leap_mods:
  fixes y :: int
  shows "(y - 1968) mod 4 = y mod 4" "(y - 1900) mod 100 = y mod 100"
    "(y - 1600) mod 400 = y mod 400"
proof -
  show "(y - 1968) mod 4 = y mod 4" using mod_mult_self1[of y "- 492" 4] by simp
  show "(y - 1900) mod 100 = y mod 100" using mod_mult_self1[of y "- 19" 100] by simp
  show "(y - 1600) mod 400 = y mod 400" using mod_mult_self1[of y "- 4" 400] by simp
qed

lemma leap_divides:
  fixes y :: int
  shows "y mod 100 = 0 \<Longrightarrow> y mod 4 = 0" "y mod 400 = 0 \<Longrightarrow> y mod 100 = 0"
proof -
  have a: "(y mod 100) mod 4 = y mod 4" by (rule mod_mod_cancel) simp
  have b: "(y mod 400) mod 100 = y mod 100" by (rule mod_mod_cancel) simp
  show "y mod 100 = 0 \<Longrightarrow> y mod 4 = 0" using a by simp
  show "y mod 400 = 0 \<Longrightarrow> y mod 100 = 0" using b by simp
qed

lemma DaysInYear_sum:
  "DaysInYear y = 365 + (if y mod 4 = 0 then 1 else 0) - (if y mod 100 = 0 then 1 else 0) +
     (if y mod 400 = 0 then 1 else 0)"
proof (cases "y mod 4 = 0")
  case True
  show ?thesis
  proof (cases "y mod 100 = 0")
    case h: True
    show ?thesis by (cases "y mod 400 = 0") (simp_all add: DaysInYear_def True h)
  next
    case False
    then have "y mod 400 \<noteq> 0" using leap_divides(2)[of y] by auto
    then show ?thesis by (simp add: DaysInYear_def True False)
  qed
next
  case False
  then have "y mod 100 \<noteq> 0" using leap_divides(1)[of y] by auto
  moreover from this have "y mod 400 \<noteq> 0" using leap_divides(2)[of y] by auto
  ultimately show ?thesis by (simp add: DaysInYear_def False)
qed

lemma DayFromYear_step: "DayFromYear (y + 1) = DayFromYear y + DaysInYear y"
proof -
  define A where "A = (y - 1969) div 4"
  define B where "B = (y - 1901) div 100"
  define C where "C = (y - 1601) div 400"
  define i4 :: int where "i4 = (if y mod 4 = 0 then 1 else 0)"
  define i100 :: int where "i100 = (if y mod 100 = 0 then 1 else 0)"
  define i400 :: int where "i400 = (if y mod 400 = 0 then 1 else 0)"
  have a: "(y - 1968) div 4 = A + i4"
    using div_succ[of 4 "y - 1969"] by (simp add: leap_mods A_def i4_def)
  have b: "(y - 1900) div 100 = B + i100"
    using div_succ[of 100 "y - 1901"] by (simp add: leap_mods B_def i100_def)
  have c: "(y - 1600) div 400 = C + i400"
    using div_succ[of 400 "y - 1601"] by (simp add: leap_mods C_def i400_def)
  have "DayFromYear (y + 1) =
          365 * (y - 1969) + (y - 1968) div 4 - (y - 1900) div 100 + (y - 1600) div 400"
    by (simp add: DayFromYear_def)
  then have n: "DayFromYear (y + 1) = 365 * (y - 1969) + (A + i4) - (B + i100) + (C + i400)"
    by (simp only: a b c)
  have o: "DayFromYear y = 365 * (y - 1970) + A - B + C"
    by (simp only: DayFromYear_def A_def B_def C_def)
  have d: "DaysInYear y = 365 + i4 - i100 + i400"
    by (simp only: DaysInYear_sum i4_def i100_def i400_def)
  show ?thesis unfolding n o d by (simp add: algebra_simps)
qed

lemma DaysInYear_pos: "0 < DaysInYear y"
  by (simp add: DaysInYear_def)

lemma DayFromYear_mono: "y \<le> z \<Longrightarrow> DayFromYear y \<le> DayFromYear z"
proof (induction z rule: int_ge_induct)
  case base
  show ?case by simp
next
  case (step i)
  then show ?case using DayFromYear_step[of i] DaysInYear_pos[of i] by linarith
qed

lemma YearFromDay_greatest:
  assumes "DayFromYear y \<le> d"
  shows "y \<le> YearFromDay d"
proof (rule ccontr)
  assume "\<not> y \<le> YearFromDay d"
  then have "YearFromDay d + 1 \<le> y" by simp
  then have "DayFromYear (YearFromDay d + 1) \<le> DayFromYear y" by (rule DayFromYear_mono)
  then show False using assms YearFromDay_bounds[of d] by linarith
qed

lemma YearFromDay_unique:
  assumes "DayFromYear y \<le> d" "d < DayFromYear (y + 1)"
  shows "YearFromDay d = y"
proof -
  have "y \<le> YearFromDay d" by (rule YearFromDay_greatest[OF assms(1)])
  moreover have "YearFromDay d \<le> y"
  proof (rule ccontr)
    assume "\<not> YearFromDay d \<le> y"
    then have "y + 1 \<le> YearFromDay d" by simp
    then have "DayFromYear (y + 1) \<le> DayFromYear (YearFromDay d)" by (rule DayFromYear_mono)
    then show False using assms(2) YearFromDay_bounds[of d] by linarith
  qed
  ultimately show ?thesis by simp
qed

lemma DayWithinYear_range:
  "0 \<le> DayWithinYear t \<and> DayWithinYear t < DaysInYear (YearFromTime t)"
  using YearFromDay_bounds[of "Day t"] DayFromYear_step[of "YearFromDay (Day t)"]
  by (simp add: DayWithinYear_def YearFromTime_def)

subsection \<open>Months and days\<close>

text \<open>
  \<open>MakeDay\<close> inverts the three date getters (\<open>MakeDay_roundtrip\<close>), and the day it
  counts from is the first of the month (\<open>MakeDay_first_of_month\<close>).
\<close>

lemma MonthFromTime_range: "0 \<le> MonthFromTime t \<and> MonthFromTime t \<le> 11"
  by (simp add: MonthFromTime_def Let_def)

lemma DateFromTime_range: "1 \<le> DateFromTime t \<and> DateFromTime t \<le> 31"
proof -
  have r: "0 \<le> DayWithinYear t" "DayWithinYear t < DaysInYear (YearFromTime t)"
    using DayWithinYear_range[of t] by simp_all
  have l: "InLeapYear t = 0 \<and> DaysInYear (YearFromTime t) = 365 \<or>
           InLeapYear t = 1 \<and> DaysInYear (YearFromTime t) = 366"
    by (simp add: InLeapYear_def leapDay_def DaysInYear_def)
  show ?thesis
    using r l unfolding DateFromTime_def MonthFromTime_def monthStart_def Let_def
    by (auto split: if_splits)
qed

lemma monthStart_range:
  assumes "0 \<le> mn" "mn \<le> 11"
  shows "0 \<le> monthStart mn (leapDay y)" "monthStart mn (leapDay y) < DaysInYear y"
  using assms by (auto simp: monthStart_def leapDay_def DaysInYear_def)

lemma MakeDay_roundtrip:
  "MakeDay (YearFromTime t) (MonthFromTime t) (DateFromTime t + k) = Day t + k"
proof -
  have m: "MonthFromTime t div 12 = 0" "MonthFromTime t mod 12 = MonthFromTime t"
    using MonthFromTime_range[of t] by simp_all
  show ?thesis
    by (simp add: MakeDay_def m DateFromTime_def DayWithinYear_def InLeapYear_def)
qed

lemma MakeDate_Day: "MakeDate (Day t + k) (TimeWithinDay t) = t + k * msPerDay"
  by (simp add: MakeDate_def Day_def TimeWithinDay_def algebra_simps)

lemma Day_shift: "Day (t + k * msPerDay) = Day t + k"
  by (simp add: Day_def msPerDay_def)

lemma Day_MakeDate: "0 \<le> r \<Longrightarrow> r < msPerDay \<Longrightarrow> Day (MakeDate D r) = D"
  unfolding Day_def MakeDate_def msPerDay_def
  using div_split[of r 86400000 D] by (simp add: mult.commute)

lemma TimeWithinDay_MakeDate: "0 \<le> r \<Longrightarrow> r < msPerDay \<Longrightarrow> TimeWithinDay (MakeDate D r) = r"
  unfolding TimeWithinDay_def MakeDate_def msPerDay_def by simp

lemma MakeDay_first_of_month:
  assumes "0 \<le> mn" "mn \<le> 11" and t_def: "t = MakeDate (MakeDay ym mn 1) 0"
  shows "YearFromTime t = ym \<and> MonthFromTime t = mn \<and> DateFromTime t = 1"
proof -
  have m: "mn div 12 = 0" "mn mod 12 = mn" using assms by simp_all
  have D: "Day t = DayFromYear ym + monthStart mn (leapDay ym)"
    unfolding t_def using Day_MakeDate[of 0 "MakeDay ym mn 1"]
    by (simp add: msPerDay_def MakeDay_def m)
  have y: "YearFromTime t = ym"
    unfolding YearFromTime_def D
    using monthStart_range[OF assms(1,2), of ym] DayFromYear_step[of ym]
    by (intro YearFromDay_unique) auto
  have w: "DayWithinYear t = monthStart mn (leapDay ym)"
    by (simp add: DayWithinYear_def D y)
  have l: "InLeapYear t = leapDay ym" by (simp add: InLeapYear_def y)
  have l01: "leapDay ym = 0 \<or> leapDay ym = 1" by (simp add: leapDay_def)
  have mo: "MonthFromTime t = mn"
  proof -
    have "mn = 0 \<or> mn = 1 \<or> mn = 2 \<or> mn = 3 \<or> mn = 4 \<or> mn = 5 \<or> mn = 6 \<or> mn = 7 \<or>
          mn = 8 \<or> mn = 9 \<or> mn = 10 \<or> mn = 11"
      using assms(1,2) by presburger
    then show ?thesis
      using l01 by (auto simp: MonthFromTime_def w l monthStart_def)
  qed
  have "DateFromTime t = 1" by (simp add: DateFromTime_def w l mo)
  then show ?thesis using y mo by simp
qed

lemma HourFromTime_MakeDate:
  assumes "0 \<le> h" "h < 24" "0 \<le> m" "m < 60"
  shows "HourFromTime (MakeDate D (MakeTime h m 0 0)) = h"
proof -
  have "MakeDate D (MakeTime h m 0 0) = 3600000 * (24 * D + h) + m * 60000"
    by (simp add: MakeDate_def MakeTime_def msPerDay_def msPerHour_def msPerMinute_def)
  moreover have "(3600000 * (24 * D + h) + m * 60000) div 3600000 = 24 * D + h"
    using assms by (intro div_split) auto
  ultimately have "MakeDate D (MakeTime h m 0 0) div msPerHour = 24 * D + h"
    by (simp add: msPerHour_def)
  then show ?thesis using assms by (simp add: HourFromTime_def)
qed

lemma MinFromTime_MakeDate:
  assumes "0 \<le> m" "m < 60"
  shows "MinFromTime (MakeDate D (MakeTime h m 0 0)) = m"
proof -
  have "MakeDate D (MakeTime h m 0 0) = 60000 * (1440 * D + 60 * h + m) + 0"
    by (simp add: MakeDate_def MakeTime_def msPerDay_def msPerHour_def msPerMinute_def)
  then have "MakeDate D (MakeTime h m 0 0) div msPerMinute = 1440 * D + 60 * h + m"
    by (simp add: msPerMinute_def)
  moreover have "(m + 60 * (24 * D + h)) mod 60 = m mod 60"
    by (simp only: mod_mult_self2)
  then have "(1440 * D + 60 * h + m) mod 60 = m mod 60"
    by (simp add: algebra_simps)
  ultimately show ?thesis using assms by (simp add: MinFromTime_def)
qed

lemma same_Day_fields:
  assumes "Day r = Day t"
  shows "YearFromTime r = YearFromTime t" "MonthFromTime r = MonthFromTime t"
    "DateFromTime r = DateFromTime t" "WeekDay r = WeekDay t"
  using assms
  by (simp_all add: YearFromTime_def MonthFromTime_def DateFromTime_def WeekDay_def
      DayWithinYear_def InLeapYear_def)

subsection \<open>Weekdays\<close>

lemma WeekDay_dayOfWeek: "WeekDay t = dayOfWeek (Day t)"
  by (simp add: WeekDay_def dayOfWeek_def)

lemma dayOfWeek_range: "0 \<le> dayOfWeek n \<and> dayOfWeek n \<le> 6"
  by (simp add: dayOfWeek_def)

lemma mod7_hit:
  fixes a wd j :: int
  assumes "0 \<le> j" "j < 7" "(a + j) mod 7 = wd mod 7"
  shows "(wd - a) mod 7 = j"
proof -
  have "(wd - a) mod 7 = (wd mod 7 - a) mod 7" by (simp only: mod_diff_left_eq)
  also have "\<dots> = ((a + j) mod 7 - a) mod 7" using assms by simp
  also have "\<dots> = (a + j - a) mod 7" by (simp only: mod_diff_left_eq)
  also have "\<dots> = j" using assms by simp
  finally show ?thesis .
qed

lemma firstOnOrAfter_alt: "firstOnOrAfter wd n = n + (wd - (n + 4)) mod 7"
  by (simp add: firstOnOrAfter_def dayOfWeek_def mod_simps)

lemma lastOnOrBefore_alt: "lastOnOrBefore wd n = n - (n + 4 - wd) mod 7"
  by (simp add: lastOnOrBefore_def dayOfWeek_def mod_simps)

lemma firstOnOrAfter_ge: "n \<le> firstOnOrAfter wd n"
  by (simp add: firstOnOrAfter_def)

lemma firstOnOrAfter_le: "firstOnOrAfter wd n \<le> n + 6"
proof -
  have "(wd - dayOfWeek n) mod 7 < 7" by simp
  then show ?thesis unfolding firstOnOrAfter_def by linarith
qed

lemma dayOfWeek_firstOnOrAfter:
  assumes "0 \<le> wd" "wd \<le> 6"
  shows "dayOfWeek (firstOnOrAfter wd n) = wd"
proof -
  have "dayOfWeek (firstOnOrAfter wd n) = (n + 4 + (wd - (n + 4)) mod 7) mod 7"
    by (simp add: firstOnOrAfter_alt dayOfWeek_def ac_simps)
  also have "\<dots> = (n + 4 + (wd - (n + 4))) mod 7" by (simp only: mod_add_right_eq)
  also have "\<dots> = wd" using assms by simp
  finally show ?thesis .
qed

lemma firstOnOrAfter_first:
  assumes "n \<le> m" "m < firstOnOrAfter wd n"
  shows "dayOfWeek m \<noteq> wd"
proof
  assume h: "dayOfWeek m = wd"
  have le: "firstOnOrAfter wd n \<le> n + 6" by (rule firstOnOrAfter_le)
  have "n + 4 + (m - n) = m + 4" by simp
  then have "(n + 4 + (m - n)) mod 7 = wd" using h by (simp only: dayOfWeek_def)
  then have "(n + 4 + (m - n)) mod 7 = wd mod 7" by (metis mod_mod_trivial)
  then have "(wd - (n + 4)) mod 7 = m - n"
    using assms le by (intro mod7_hit) auto
  then have "firstOnOrAfter wd n = m" by (simp add: firstOnOrAfter_alt)
  then show False using assms by simp
qed

lemma lastOnOrBefore_le: "lastOnOrBefore wd n \<le> n"
  by (simp add: lastOnOrBefore_def)

lemma lastOnOrBefore_ge: "n - 6 \<le> lastOnOrBefore wd n"
proof -
  have "(dayOfWeek n - wd) mod 7 < 7" by simp
  then show ?thesis unfolding lastOnOrBefore_def by linarith
qed

lemma dayOfWeek_lastOnOrBefore:
  assumes "0 \<le> wd" "wd \<le> 6"
  shows "dayOfWeek (lastOnOrBefore wd n) = wd"
proof -
  have "n - (n + 4 - wd) mod 7 + 4 = n + 4 - (n + 4 - wd) mod 7" by simp
  then have "dayOfWeek (lastOnOrBefore wd n) = (n + 4 - (n + 4 - wd) mod 7) mod 7"
    by (simp only: lastOnOrBefore_alt dayOfWeek_def)
  also have "\<dots> = (n + 4 - (n + 4 - wd)) mod 7" by (simp only: mod_diff_right_eq)
  also have "\<dots> = wd" using assms by simp
  finally show ?thesis .
qed

lemma lastOnOrBefore_last:
  assumes "lastOnOrBefore wd n < m" "m \<le> n"
  shows "dayOfWeek m \<noteq> wd"
proof
  assume h: "dayOfWeek m = wd"
  have ge: "n - 6 \<le> lastOnOrBefore wd n" by (rule lastOnOrBefore_ge)
  have "(wd + (n - m)) mod 7 = ((m + 4) mod 7 + (n - m)) mod 7"
    using h by (simp only: dayOfWeek_def)
  also have "\<dots> = (m + 4 + (n - m)) mod 7" by (simp only: mod_add_left_eq)
  also have "m + 4 + (n - m) = n + 4" by simp
  finally have "(wd + (n - m)) mod 7 = (n + 4) mod 7" .
  then have "(n + 4 - wd) mod 7 = n - m"
    using assms ge by (intro mod7_hit) auto
  then have "lastOnOrBefore wd n = m" by (simp add: lastOnOrBefore_alt)
  then show False using assms by simp
qed

subsection \<open>Date objects\<close>

lemma clipLocal_representable: "representable tz t \<Longrightarrow> clipLocal tz t = DateAt t"
  by (simp add: clipLocal_def representable_def)

lemma well_inside_representable:
  assumes "well_inside tz t" "- 7 * msPerDay \<le> d" "d \<le> 7 * msPerDay"
  shows "representable tz (t + d)"
  using assms unfolding well_inside_def representable_def by linarith

lemma well_inside_imp_representable: "well_inside tz t \<Longrightarrow> representable tz t"
  using well_inside_representable[of tz t 0] by (simp add: msPerDay_def)

lemma near_representable:
  assumes "well_inside tz t" "Day t - 6 \<le> D" "D \<le> Day t + 6" "0 \<le> r" "r < msPerDay"
  shows "representable tz (MakeDate D r)"
proof -
  have t: "t = Day t * msPerDay + t mod msPerDay" by (simp add: Day_def)
  have m: "0 \<le> t mod msPerDay" "t mod msPerDay < msPerDay" by (simp_all add: msPerDay_def)
  define d where "d = (D - Day t) * msPerDay + r - t mod msPerDay"
  have eq: "MakeDate D r = t + d"
    using t by (simp add: MakeDate_def d_def algebra_simps)
  have x: "- 6 \<le> D - Day t" "D - Day t \<le> 6" using assms(2,3) by linarith+
  have "- 6 * msPerDay \<le> (D - Day t) * msPerDay" "(D - Day t) * msPerDay \<le> 6 * msPerDay"
    using x by (simp_all add: msPerDay_def)
  then have "- 7 * msPerDay \<le> d" "d \<le> 7 * msPerDay"
    using assms(4,5) m unfolding d_def by linarith+
  then show ?thesis
    unfolding eq using assms(1) by (intro well_inside_representable)
qed

lemma copy_DateAt:
  "representable tz t \<Longrightarrow> Date_of_value tz (getTime tz (DateAt t)) = DateAt t"
  by (simp add: clipLocal_representable)

lemma setDate_shift:
  "setDate tz (DateAt t) (Some (DateFromTime t + k)) = clipLocal tz (t + k * msPerDay)"
  by (simp add: MakeDay_roundtrip MakeDate_Day)

lemma forwardStep_DateAt: "forwardStep tz (DateAt t) = clipLocal tz (t + msPerDay)"
  using setDate_shift[of tz t 1] by (simp add: forwardStep_def)

lemma backwardStep_DateAt: "backwardStep tz (DateAt t) = clipLocal tz (t - msPerDay)"
  using setDate_shift[of tz t "-1"] by (simp add: backwardStep_def)

lemma forwardStep_Invalid: "forwardStep tz InvalidDate = InvalidDate"
  by (simp add: forwardStep_def)

lemma backwardStep_Invalid: "backwardStep tz InvalidDate = InvalidDate"
  by (simp add: backwardStep_def)

lemma getDay_range: "getDay d = Some wd \<Longrightarrow> 0 \<le> wd \<and> wd \<le> 6"
  by (cases d) (auto simp: WeekDay_def)


section \<open>Facts about Slot\<close>

subsection \<open>Weekday and time of day\<close>

lemma js_rem_nonneg: "0 \<le> a \<Longrightarrow> js_rem a 30 = a mod 30" "0 \<le> a \<Longrightarrow> js_rem a 2 = a mod 2"
  by (simp_all add: js_rem_def)

lemma mod_30_mod_2: "(i mod 30) mod 2 = i mod 2" for i :: int
  by (rule mod_mod_cancel) simp

lemma slot_time_spec:
  assumes "0 \<le> slot s"
  shows "MakeTime (js_rem (slot s) 30 div 2 + 8) (js_rem (slot s) 2 * 30) 0 0 = spec_time (slot s)"
  using assms by (simp add: js_rem_nonneg spec_time_def spec_hour_def spec_minute_def mod_30_mod_2)

lemma spec_hour_range: "8 \<le> spec_hour i \<and> spec_hour i \<le> 22"
proof -
  have "0 \<le> i mod 30" "i mod 30 < 30" by simp_all
  then show ?thesis unfolding spec_hour_def by linarith
qed

lemma spec_minute_range: "spec_minute i = 0 \<or> spec_minute i = 30"
proof -
  have "0 \<le> (i mod 30) mod 2" "(i mod 30) mod 2 < 2" by simp_all
  then have "(i mod 30) mod 2 = 0 \<or> (i mod 30) mod 2 = 1" by linarith
  then show ?thesis unfolding spec_minute_def by auto
qed

lemma spec_time_range: "0 \<le> spec_time i \<and> spec_time i < msPerDay"
  using spec_hour_range[of i] spec_minute_range[of i]
  unfolding spec_time_def MakeTime_def msPerHour_def msPerMinute_def msPerDay_def
  by auto

lemma onDate_DateAt:
  assumes "plain_year (YearFromTime t)"
  shows "onDate tz s (DateAt t) =
           clipLocal tz (MakeDate (Day t)
             (MakeTime (js_rem (slot s) 30 div 2 + 8) (js_rem (slot s) 2 * 30) 0 0))"
proof -
  have "\<not> (0 \<le> YearFromTime t \<and> YearFromTime t \<le> 99)"
    using assms by (auto simp: plain_year_def)
  then have "(if 0 \<le> YearFromTime t \<and> YearFromTime t \<le> 99 then 1900 + YearFromTime t
             else YearFromTime t) = YearFromTime t"
    by (simp only: if_False)
  then show ?thesis
    using MakeDay_roundtrip[of t 0] by (simp add: onDate_def Let_def del: de_Morgan_conj)
qed

lemma onDate_spec:
  assumes "plain_year (YearFromTime t)" "0 \<le> slot s"
    and "representable tz (MakeDate (Day t) (spec_time (slot s)))"
  shows "onDate tz s (DateAt t) = DateAt (MakeDate (Day t) (spec_time (slot s)))"
  using assms by (simp add: onDate_DateAt slot_time_spec clipLocal_representable)

lemma weekday_range:
  assumes "0 \<le> slot s" "slot s \<le> 149"
  shows "1 \<le> weekday s" "weekday s \<le> 5"
  using assms unfolding weekday_def by linarith+

lemma weekday_is_getDay_value:
  "(0 \<le> weekday s \<and> weekday s \<le> 6) = (- 30 \<le> slot s \<and> slot s \<le> 179)"
  unfolding weekday_def by presburger

subsection \<open>Projection onto a slot\<close>

lemma weekday_1_nonneg: "weekday s = 1 \<Longrightarrow> 0 \<le> slot s"
  unfolding weekday_def by presburger






subsection \<open>Labels\<close>

lemma TIMESLOT_STRINGS_eq:
  "TIMESLOT_STRINGS =
     [''8:00 AM'', ''8:30 AM'', ''9:00 AM'', ''9:30 AM'', ''10:00 AM'', ''10:30 AM'',
      ''11:00 AM'', ''11:30 AM'', ''12:00 PM'', ''12:30 PM'', ''1:00 PM'', ''1:30 PM'',
      ''2:00 PM'', ''2:30 PM'', ''3:00 PM'', ''3:30 PM'', ''4:00 PM'', ''4:30 PM'',
      ''5:00 PM'', ''5:30 PM'', ''6:00 PM'', ''6:30 PM'', ''7:00 PM'', ''7:30 PM'',
      ''8:00 PM'', ''8:30 PM'', ''9:00 PM'', ''9:30 PM'', ''10:00 PM'']"
  by code_simp

lemma time_labels_eq:
  "map (\<lambda>k. time_label (480 + 30 * k)) [0..<29] =
     [''8:00 AM'', ''8:30 AM'', ''9:00 AM'', ''9:30 AM'', ''10:00 AM'', ''10:30 AM'',
      ''11:00 AM'', ''11:30 AM'', ''12:00 PM'', ''12:30 PM'', ''1:00 PM'', ''1:30 PM'',
      ''2:00 PM'', ''2:30 PM'', ''3:00 PM'', ''3:30 PM'', ''4:00 PM'', ''4:30 PM'',
      ''5:00 PM'', ''5:30 PM'', ''6:00 PM'', ''6:30 PM'', ''7:00 PM'', ''7:30 PM'',
      ''8:00 PM'', ''8:30 PM'', ''9:00 PM'', ''9:30 PM'', ''10:00 PM'']"
  by code_simp

lemma length_TIMESLOT_STRINGS: "length TIMESLOT_STRINGS = 29"
  unfolding TIMESLOT_STRINGS_eq by simp

lemma length_WEEKDAY_STRINGS: "length WEEKDAY_STRINGS = 5"
  by (simp add: WEEKDAY_STRINGS_def)

lemma indexOf_from_notin: "x \<notin> set xs \<Longrightarrow> indexOf_from xs x k = - 1"
  by (induction xs arbitrary: k) auto

lemma indexOf_from_in:
  "x \<in> set xs \<Longrightarrow>
   k \<le> indexOf_from xs x k \<and> indexOf_from xs x k < k + int (length xs) \<and>
   xs ! nat (indexOf_from xs x k - k) = x"
proof (induction xs arbitrary: k)
  case Nil
  then show ?case by simp
next
  case (Cons y ys)
  show ?case
  proof (cases "y = x")
    case True
    then show ?thesis by simp
  next
    case False
    then have "x \<in> set ys" using Cons.prems by simp
    from Cons.IH[OF this, of "k + 1"]
    have ih: "k + 1 \<le> indexOf_from ys x (k + 1)"
      "indexOf_from ys x (k + 1) < k + 1 + int (length ys)"
      "ys ! nat (indexOf_from ys x (k + 1) - (k + 1)) = x"
      by simp_all
    have "nat (indexOf_from ys x (k + 1) - k) = Suc (nat (indexOf_from ys x (k + 1) - (k + 1)))"
      using ih(1) by linarith
    then show ?thesis using False ih by simp
  qed
qed

lemma indexOf_notin: "x \<notin> set xs \<Longrightarrow> indexOf xs x = - 1"
  by (simp add: indexOf_def indexOf_from_notin)

lemma indexOf_in:
  assumes "x \<in> set xs"
  shows "0 \<le> indexOf xs x" "indexOf xs x < int (length xs)" "xs ! nat (indexOf xs x) = x"
  using indexOf_from_in[OF assms, of 0] by (simp_all add: indexOf_def)

lemma elemAt_indexOf: "x \<in> set xs \<Longrightarrow> elemAt xs (indexOf xs x) = Some x"
  using indexOf_in[of x xs] by (simp add: elemAt_def)

lemma dayString_number_parts:
  fixes di ti :: int
  assumes "0 \<le> ti" "ti < 29"
  shows "(30 * di + ti) div 30 = di" "0 \<le> di \<Longrightarrow> js_rem (30 * di + ti) 30 = ti"
proof -
  show "(30 * di + ti) div 30 = di" using assms by (intro div_split) auto
  assume "0 \<le> di"
  then have "0 \<le> 30 * di + ti" using assms by simp
  moreover have "(30 * di + ti) mod 30 = ti" using assms by simp
  ultimately show "js_rem (30 * di + ti) 30 = ti" by (simp add: js_rem_def)
qed

lemma dayString_timeString_number:
  assumes "d \<in> set WEEKDAY_STRINGS" "t \<in> set TIMESLOT_STRINGS"
  shows "dayString \<lparr>slot = dayString_number d t\<rparr> = Some d"
    and "timeString \<lparr>slot = dayString_number d t\<rparr> = Some t"
proof -
  let ?di = "indexOf WEEKDAY_STRINGS d" and ?ti = "indexOf TIMESLOT_STRINGS t"
  have di: "0 \<le> ?di" using indexOf_in(1)[OF assms(1)] .
  have ti: "0 \<le> ?ti" "?ti < 29"
    using indexOf_in(1,2)[OF assms(2)] by (simp_all add: length_TIMESLOT_STRINGS)
  show "dayString \<lparr>slot = dayString_number d t\<rparr> = Some d"
    by (simp add: dayString_def weekday_def dayString_number_def
        dayString_number_parts(1)[OF ti] elemAt_indexOf[OF assms(1)])
  show "timeString \<lparr>slot = dayString_number d t\<rparr> = Some t"
    by (simp add: timeString_def dayString_number_def
        dayString_number_parts(2)[OF ti di] elemAt_indexOf[OF assms(2)])
qed

lemma weekday_label_index:
  assumes "day \<in> set WEEKDAY_STRINGS"
  shows "0 \<le> indexOf WEEKDAY_STRINGS day" "indexOf WEEKDAY_STRINGS day \<le> 4"
    "(indexOf WEEKDAY_STRINGS day = 0) = (day = ''Mon'')"
proof -
  show "0 \<le> indexOf WEEKDAY_STRINGS day" by (rule indexOf_in(1)[OF assms])
  show "indexOf WEEKDAY_STRINGS day \<le> 4"
    using indexOf_in(2)[OF assms] by (simp add: length_WEEKDAY_STRINGS)
  show "(indexOf WEEKDAY_STRINGS day = 0) = (day = ''Mon'')"
    by (simp add: indexOf_def WEEKDAY_STRINGS_def)
qed

lemma timeString_last_slot:
  assumes "1 \<le> di"
  shows "timeString \<lparr>slot = 30 * di - 1\<rparr> = None"
proof -
  have n: "30 * di - 1 = 30 * (di - 1) + 29" by simp
  have "0 \<le> 30 * di - 1" using assms by simp
  moreover have "(29 + 30 * (di - 1)) mod 30 = 29 mod 30" by (simp only: mod_mult_self2)
  then have "(30 * di - 1) mod 30 = 29" unfolding n by (simp add: add.commute)
  ultimately have "js_rem (30 * di - 1) 30 = 29" by (simp add: js_rem_def)
  then show ?thesis by (simp add: timeString_def elemAt_def length_TIMESLOT_STRINGS)
qed

subsection \<open>The store\<close>

text \<open>
  \<open>fromSlotNumber\<close> returns the object of the cache, the same at every call, and
  keeps the cache sound.
\<close>

lemma deref_new_Slot:
  "new_Slot h n = (r, h') \<Longrightarrow> deref h' r = Some \<lparr>slot = n\<rparr>"
  by (auto simp: new_Slot_def deref_def)

lemma deref_new_Slot_old:
  "new_Slot h n = (r, h') \<Longrightarrow> deref h q = Some s \<Longrightarrow> deref h' q = Some s"
  by (auto simp: new_Slot_def deref_def nth_append split: if_splits)

lemma new_Slot_fresh: "new_Slot h n = (r, h') \<Longrightarrow> deref h r = None"
  by (auto simp: new_Slot_def deref_def)

lemma new_Slot_table: "new_Slot h n = (r, h') \<Longrightarrow> SLOT_OBJECTS h' = SLOT_OBJECTS h"
  by (auto simp: new_Slot_def)

lemma store_ok_empty: "store_ok empty_store"
  by (simp add: store_ok_def empty_store_def)

lemma store_ok_new_Slot: "store_ok h \<Longrightarrow> new_Slot h n = (r, h') \<Longrightarrow> store_ok h'"
  unfolding store_ok_def using deref_new_Slot_old new_Slot_table by metis

lemma fromSlotNumber_deref:
  assumes "store_ok h" "fromSlotNumber h n = (r, h')"
  shows "deref h' r = Some \<lparr>slot = n\<rparr>" "store_ok h'" "SLOT_OBJECTS h' n = Some r"
proof -
  show "deref h' r = Some \<lparr>slot = n\<rparr>"
  proof (cases "SLOT_OBJECTS h n")
    case None
    then show ?thesis
      using assms(2) by (auto simp: fromSlotNumber_def new_Slot_def deref_def)
  next
    case (Some q)
    then have "h' = h" "r = q" using assms(2) by (simp_all add: fromSlotNumber_def)
    then show ?thesis using assms(1) Some unfolding store_ok_def by blast
  qed
  show "SLOT_OBJECTS h' n = Some r"
    using assms by (auto simp: fromSlotNumber_def new_Slot_def split: option.splits)
  show "store_ok h'"
  proof (cases "SLOT_OBJECTS h n")
    case None
    obtain q h1 where q: "new_Slot h n = (q, h1)" by (cases "new_Slot h n")
    have h': "h' = h1\<lparr>SLOT_OBJECTS := (SLOT_OBJECTS h1)(n := Some q)\<rparr>" and r: "r = q"
      using assms(2) None q by (auto simp: fromSlotNumber_def)
    have ok1: "store_ok h1" by (rule store_ok_new_Slot[OF assms(1) q])
    have dq: "deref h1 q = Some \<lparr>slot = n\<rparr>" by (rule deref_new_Slot[OF q])
    have d: "deref h' p = deref h1 p" for p by (simp add: h' deref_def)
    show ?thesis
      unfolding store_ok_def
    proof (intro allI impI)
      fix m p
      assume a: "SLOT_OBJECTS h' m = Some p"
      show "deref h' p = Some \<lparr>slot = m\<rparr>"
      proof (cases "m = n")
        case True
        then have "p = q" using a by (simp add: h')
        then show ?thesis using dq True by (simp add: d)
      next
        case False
        then have "SLOT_OBJECTS h1 m = Some p" using a by (simp add: h')
        then show ?thesis using ok1 unfolding store_ok_def d by blast
      qed
    qed
  next
    case (Some q)
    then show ?thesis using assms by (simp add: fromSlotNumber_def)
  qed
qed

lemma fromSlotNumber_again:
  "fromSlotNumber h n = (r, h') \<Longrightarrow> fromSlotNumber h' n = (r, h')"
  by (auto simp: fromSlotNumber_def new_Slot_def split: option.splits)

lemma fromSlotNumber_keeps:
  "fromSlotNumber h m = (q, h') \<Longrightarrow> SLOT_OBJECTS h n = Some r \<Longrightarrow> SLOT_OBJECTS h' n = Some r"
  by (auto simp: fromSlotNumber_def new_Slot_def split: option.splits)

lemma store_ok_fromSlotNumber: "store_ok h \<Longrightarrow> store_ok (snd (fromSlotNumber h n))"
  using fromSlotNumber_deref(2)[of h n] by (cases "fromSlotNumber h n") simp

lemma store_ok_fromDayString: "store_ok h \<Longrightarrow> store_ok (snd (fromDayString h day time))"
  by (simp add: fromDayString_def store_ok_fromSlotNumber)

lemma store_ok_add: "store_ok h \<Longrightarrow> store_ok (snd (add h s slots))"
  by (simp add: add_def store_ok_fromSlotNumber)

lemma store_ok_fromStartDate:
  "store_ok h \<Longrightarrow> fromStartDate h date = Some (r, h') \<Longrightarrow> store_ok h'"
  using store_ok_new_Slot by (auto simp: fromStartDate_def)

section \<open>Facts about the weekday searches\<close>

text \<open>
  A loop that returns has run its body a number of times (\<open>forwardLoop_run\<close>,
  \<open>backwardLoop_run\<close>); what it returns passes its test (\<open>forwardLoop_result_getDay\<close>),
  so that a loop looking for a weekday that \<open>getDay\<close> never returns, or starting
  from an invalid Date, does not end.
\<close>

lemma forwardLoop_run:
  assumes "\<And>j. j < k \<Longrightarrow> dayOfWeek (Day t + int j) \<noteq> wd"
    and "dayOfWeek (Day t + int k) = wd"
    and "\<And>j. j \<le> k \<Longrightarrow> representable tz (t + int j * msPerDay)"
  shows "forwardLoop tz wd (DateAt t) = Some (DateAt (t + int k * msPerDay))"
  using assms
proof (induction k arbitrary: t)
  case 0
  then show ?case
    by (subst forwardLoop.simps) (simp add: WeekDay_dayOfWeek)
next
  case (Suc k)
  have ne: "dayOfWeek (Day t) \<noteq> wd" using Suc.prems(1)[of 0] by simp
  have rep: "representable tz (t + msPerDay)" using Suc.prems(3)[of 1] by simp
  have step: "forwardStep tz (DateAt t) = DateAt (t + msPerDay)"
    by (simp add: forwardStep_DateAt clipLocal_representable rep)
  have D: "Day (t + msPerDay) = Day t + 1" using Day_shift[of t 1] by simp
  have "forwardLoop tz wd (DateAt (t + msPerDay)) = Some (DateAt (t + msPerDay + int k * msPerDay))"
  proof (rule Suc.IH)
    fix j assume "j < k"
    then show "dayOfWeek (Day (t + msPerDay) + int j) \<noteq> wd"
      using Suc.prems(1)[of "Suc j"] unfolding D by (simp add: ac_simps)
  next
    show "dayOfWeek (Day (t + msPerDay) + int k) = wd"
      using Suc.prems(2) unfolding D by (simp add: ac_simps)
  next
    fix j assume "j \<le> k"
    then show "representable tz (t + msPerDay + int j * msPerDay)"
      using Suc.prems(3)[of "Suc j"] by (simp add: algebra_simps)
  qed
  then show ?case
    by (subst forwardLoop.simps) (simp add: WeekDay_dayOfWeek ne step algebra_simps)
qed

lemma backwardLoop_run:
  assumes "\<And>j. j < k \<Longrightarrow> dayOfWeek (Day t - int j) \<noteq> wd"
    and "dayOfWeek (Day t - int k) = wd"
    and "\<And>j. j \<le> k \<Longrightarrow> representable tz (t - int j * msPerDay)"
  shows "backwardLoop tz wd (DateAt t) = Some (DateAt (t - int k * msPerDay))"
  using assms
proof (induction k arbitrary: t)
  case 0
  then show ?case
    by (subst backwardLoop.simps) (simp add: WeekDay_dayOfWeek)
next
  case (Suc k)
  have ne: "dayOfWeek (Day t) \<noteq> wd" using Suc.prems(1)[of 0] by simp
  have rep: "representable tz (t - msPerDay)" using Suc.prems(3)[of 1] by simp
  have step: "backwardStep tz (DateAt t) = DateAt (t - msPerDay)"
    by (simp add: backwardStep_DateAt clipLocal_representable rep)
  have D: "Day (t - msPerDay) = Day t - 1" using Day_shift[of t "- 1"] by simp
  have "backwardLoop tz wd (DateAt (t - msPerDay)) =
          Some (DateAt (t - msPerDay - int k * msPerDay))"
  proof (rule Suc.IH)
    fix j assume "j < k"
    then show "dayOfWeek (Day (t - msPerDay) - int j) \<noteq> wd"
      using Suc.prems(1)[of "Suc j"] unfolding D by (simp add: algebra_simps)
  next
    show "dayOfWeek (Day (t - msPerDay) - int k) = wd"
      using Suc.prems(2) unfolding D by (simp add: algebra_simps)
  next
    fix j assume "j \<le> k"
    then show "representable tz (t - msPerDay - int j * msPerDay)"
      using Suc.prems(3)[of "Suc j"] by (simp add: algebra_simps)
  qed
  then show ?case
    by (subst backwardLoop.simps) (simp add: WeekDay_dayOfWeek ne step algebra_simps)
qed

lemma forwardLoop_first:
  assumes wd: "0 \<le> wd" "wd \<le> 6" and wi: "well_inside tz t"
  shows "forwardLoop tz wd (DateAt t) =
           Some (DateAt (t + (firstOnOrAfter wd (Day t) - Day t) * msPerDay))"
proof -
  define k where "k = nat (firstOnOrAfter wd (Day t) - Day t)"
  have ge: "Day t \<le> firstOnOrAfter wd (Day t)" by (rule firstOnOrAfter_ge)
  have le: "firstOnOrAfter wd (Day t) \<le> Day t + 6" by (rule firstOnOrAfter_le)
  have k: "int k = firstOnOrAfter wd (Day t) - Day t" using ge by (simp add: k_def)
  have "forwardLoop tz wd (DateAt t) = Some (DateAt (t + int k * msPerDay))"
  proof (rule forwardLoop_run)
    fix j assume "j < k"
    then show "dayOfWeek (Day t + int j) \<noteq> wd"
      using k by (intro firstOnOrAfter_first[where n = "Day t"]) auto
  next
    show "dayOfWeek (Day t + int k) = wd"
      using dayOfWeek_firstOnOrAfter[OF wd, of "Day t"] k by simp
  next
    fix j assume "j \<le> k"
    then have "int j \<le> 6" using k le by linarith
    then show "representable tz (t + int j * msPerDay)"
      using wi by (intro well_inside_representable) (auto simp: msPerDay_def)
  qed
  then show ?thesis by (simp add: k)
qed

lemma backwardLoop_last:
  assumes wd: "0 \<le> wd" "wd \<le> 6" and wi: "well_inside tz t"
  shows "backwardLoop tz wd (DateAt t) =
           Some (DateAt (t - (Day t - lastOnOrBefore wd (Day t)) * msPerDay))"
proof -
  define k where "k = nat (Day t - lastOnOrBefore wd (Day t))"
  have le: "lastOnOrBefore wd (Day t) \<le> Day t" by (rule lastOnOrBefore_le)
  have ge: "Day t - 6 \<le> lastOnOrBefore wd (Day t)" by (rule lastOnOrBefore_ge)
  have k: "int k = Day t - lastOnOrBefore wd (Day t)" using le by (simp add: k_def)
  have "backwardLoop tz wd (DateAt t) = Some (DateAt (t - int k * msPerDay))"
  proof (rule backwardLoop_run)
    fix j assume "j < k"
    then show "dayOfWeek (Day t - int j) \<noteq> wd"
      using k by (intro lastOnOrBefore_last[where n = "Day t"]) auto
  next
    show "dayOfWeek (Day t - int k) = wd"
      using dayOfWeek_lastOnOrBefore[OF wd, of "Day t"] k by simp
  next
    fix j assume "j \<le> k"
    then have "int j \<le> 6" using k ge by linarith
    then have "representable tz (t + (- (int j * msPerDay)))"
      using wi by (intro well_inside_representable) (auto simp: msPerDay_def)
    then show "representable tz (t - int j * msPerDay)" by simp
  qed
  then show ?thesis by (simp add: k)
qed

lemma forwardLoop_result_getDay:
  assumes "forwardLoop tz wd date = Some r"
  shows "getDay r = Some wd"
proof (rule forwardLoop.raw_induct[where P = "\<lambda>tz wd date r. getDay r = Some wd", OF _ assms])
  fix loop tz wd date r
  assume "\<And>wd date b y. loop wd date b = Some y \<Longrightarrow> getDay y = Some date"
    and "(if getDay date \<noteq> Some wd then loop tz wd (forwardStep tz date) else Some date) = Some r"
  then show "getDay r = Some wd" by (auto split: if_splits)
qed

lemma backwardLoop_result_getDay:
  assumes "backwardLoop tz wd date = Some r"
  shows "getDay r = Some wd"
proof (rule backwardLoop.raw_induct[where P = "\<lambda>tz wd date r. getDay r = Some wd", OF _ assms])
  fix loop tz wd date r
  assume "\<And>wd date b y. loop wd date b = Some y \<Longrightarrow> getDay y = Some date"
    and "(if getDay date \<noteq> Some wd then loop tz wd (backwardStep tz date) else Some date) = Some r"
  then show "getDay r = Some wd" by (auto split: if_splits)
qed

lemma forwardLoop_no_weekday:
  assumes "wd < 0 \<or> 6 < wd"
  shows "forwardLoop tz wd date = None"
proof (cases "forwardLoop tz wd date")
  case (Some r)
  then show ?thesis
    using getDay_range[OF forwardLoop_result_getDay[OF Some]] assms by auto
qed simp

lemma backwardLoop_no_weekday:
  assumes "wd < 0 \<or> 6 < wd"
  shows "backwardLoop tz wd date = None"
proof (cases "backwardLoop tz wd date")
  case (Some r)
  then show ?thesis
    using getDay_range[OF backwardLoop_result_getDay[OF Some]] assms by auto
qed simp

lemma forwardLoop_result_valid:
  assumes "forwardLoop tz wd date = Some r"
  shows "date \<noteq> InvalidDate"
proof (rule forwardLoop.raw_induct[where P = "\<lambda>tz wd date r. date \<noteq> InvalidDate", OF _ assms])
  fix loop tz wd date r
  assume "\<And>wd date b y. loop wd date b = Some y \<Longrightarrow> b \<noteq> InvalidDate"
    and "(if getDay date \<noteq> Some wd then loop tz wd (forwardStep tz date) else Some date) = Some r"
  then show "date \<noteq> InvalidDate"
    by (cases date) (auto simp: forwardStep_Invalid split: if_splits)
qed

lemma backwardLoop_result_valid:
  assumes "backwardLoop tz wd date = Some r"
  shows "date \<noteq> InvalidDate"
proof (rule backwardLoop.raw_induct[where P = "\<lambda>tz wd date r. date \<noteq> InvalidDate", OF _ assms])
  fix loop tz wd date r
  assume "\<And>wd date b y. loop wd date b = Some y \<Longrightarrow> b \<noteq> InvalidDate"
    and "(if getDay date \<noteq> Some wd then loop tz wd (backwardStep tz date) else Some date) = Some r"
  then show "date \<noteq> InvalidDate"
    by (cases date) (auto simp: backwardStep_Invalid split: if_splits)
qed

lemma forwardLoop_Invalid: "forwardLoop tz wd InvalidDate = None"
  using forwardLoop_result_valid[of tz wd InvalidDate] by (cases "forwardLoop tz wd InvalidDate") auto

lemma backwardLoop_Invalid: "backwardLoop tz wd InvalidDate = None"
  using backwardLoop_result_valid[of tz wd InvalidDate] by (cases "backwardLoop tz wd InvalidDate") auto

lemma forwardStep_funpow:
  assumes "\<And>j. j \<le> k \<Longrightarrow> representable tz (t + int j * msPerDay)"
  shows "(forwardStep tz ^^ k) (DateAt t) = DateAt (t + int k * msPerDay)"
  using assms
proof (induction k)
  case 0
  then show ?case by simp
next
  case (Suc k)
  have "representable tz (t + int k * msPerDay + msPerDay)"
    using Suc.prems[of "Suc k"] by (simp add: algebra_simps)
  then show ?case
    using Suc by (simp add: forwardStep_DateAt clipLocal_representable algebra_simps)
qed

lemma backwardStep_funpow:
  assumes "\<And>j. j \<le> k \<Longrightarrow> representable tz (t - int j * msPerDay)"
  shows "(backwardStep tz ^^ k) (DateAt t) = DateAt (t - int k * msPerDay)"
  using assms
proof (induction k)
  case 0
  then show ?case by simp
next
  case (Suc k)
  have "representable tz (t - int k * msPerDay - msPerDay)"
    using Suc.prems[of "Suc k"] by (simp add: algebra_simps)
  then show ?case
    using Suc by (simp add: backwardStep_DateAt clipLocal_representable algebra_simps)
qed

lemma forwardLoop_steps:
  assumes wd: "0 \<le> wd" "wd \<le> 6" and wi: "well_inside tz t"
  shows "\<exists>k\<le>6. forwardLoop tz wd (DateAt t) = Some ((forwardStep tz ^^ k) (DateAt t))"
proof -
  define k where "k = nat (firstOnOrAfter wd (Day t) - Day t)"
  have ge: "Day t \<le> firstOnOrAfter wd (Day t)" by (rule firstOnOrAfter_ge)
  have le: "firstOnOrAfter wd (Day t) \<le> Day t + 6" by (rule firstOnOrAfter_le)
  have k: "int k = firstOnOrAfter wd (Day t) - Day t" using ge by (simp add: k_def)
  have k6: "k \<le> 6" using k le by linarith
  have "(forwardStep tz ^^ k) (DateAt t) = DateAt (t + int k * msPerDay)"
  proof (rule forwardStep_funpow)
    fix j assume "j \<le> k"
    then have "int j \<le> 6" using k6 by linarith
    then show "representable tz (t + int j * msPerDay)"
      using wi by (intro well_inside_representable) (auto simp: msPerDay_def)
  qed
  then have "forwardLoop tz wd (DateAt t) = Some ((forwardStep tz ^^ k) (DateAt t))"
    using forwardLoop_first[OF wd wi] by (simp add: k)
  then show ?thesis using k6 by blast
qed

lemma backwardLoop_steps:
  assumes wd: "0 \<le> wd" "wd \<le> 6" and wi: "well_inside tz t"
  shows "\<exists>k\<le>6. backwardLoop tz wd (DateAt t) = Some ((backwardStep tz ^^ k) (DateAt t))"
proof -
  define k where "k = nat (Day t - lastOnOrBefore wd (Day t))"
  have le: "lastOnOrBefore wd (Day t) \<le> Day t" by (rule lastOnOrBefore_le)
  have ge: "Day t - 6 \<le> lastOnOrBefore wd (Day t)" by (rule lastOnOrBefore_ge)
  have k: "int k = Day t - lastOnOrBefore wd (Day t)" using le by (simp add: k_def)
  have k6: "k \<le> 6" using k ge by linarith
  have "(backwardStep tz ^^ k) (DateAt t) = DateAt (t - int k * msPerDay)"
  proof (rule backwardStep_funpow)
    fix j assume "j \<le> k"
    then have "int j \<le> 6" using k6 by linarith
    then have "representable tz (t + (- (int j * msPerDay)))"
      using wi by (intro well_inside_representable) (auto simp: msPerDay_def)
    then show "representable tz (t - int j * msPerDay)" by simp
  qed
  then have "backwardLoop tz wd (DateAt t) = Some ((backwardStep tz ^^ k) (DateAt t))"
    using backwardLoop_last[OF wd wi] by (simp add: k)
  then show ?thesis using k6 by blast
qed

lemma startDateFor_returns_iff:
  assumes "(if secondHalf then h2Start t else start t) = DateAt a" "well_inside tz a"
  shows "(startDateFor tz t s secondHalf \<noteq> None) = (0 \<le> weekday s \<and> weekday s \<le> 6)"
proof -
  have copy: "Date_of_value tz (getTime tz (if secondHalf then h2Start t else start t)) = DateAt a"
    using assms by (simp add: copy_DateAt well_inside_imp_representable del: getTime.simps)
  show ?thesis
  proof (cases "0 \<le> weekday s \<and> weekday s \<le> 6")
    case True
    then show ?thesis
      using forwardLoop_first[of "weekday s" tz a] assms(2)
      by (simp add: startDateFor_def copy)
  next
    case False
    then have "forwardLoop tz (weekday s) (DateAt a) = None"
      by (intro forwardLoop_no_weekday) auto
    then show ?thesis using False by (simp add: startDateFor_def copy)
  qed
qed

lemma endDateFor_returns_iff:
  assumes "(if firstHalf then h1End t else termEnd t) = DateAt b" "well_inside tz b"
  shows "(endDateFor tz t s firstHalf \<noteq> None) = (0 \<le> weekday s \<and> weekday s \<le> 6)"
proof -
  have copy: "Date_of_value tz (getTime tz (if firstHalf then h1End t else termEnd t)) = DateAt b"
    using assms by (simp add: copy_DateAt well_inside_imp_representable del: getTime.simps)
  show ?thesis
  proof (cases "0 \<le> weekday s \<and> weekday s \<le> 6")
    case True
    then show ?thesis
      using backwardLoop_last[of "weekday s" tz b] assms(2)
      by (simp add: endDateFor_def copy)
  next
    case False
    then have "backwardLoop tz (weekday s) (DateAt b) = None"
      by (intro backwardLoop_no_weekday) auto
    then show ?thesis using False by (simp add: endDateFor_def copy)
  qed
qed

lemma startDateFor_invalid:
  "(if secondHalf then h2Start t else start t) = InvalidDate \<Longrightarrow>
   startDateFor tz t s secondHalf = None"
  by (simp add: startDateFor_def forwardLoop_Invalid del: getTime.simps) (simp add: forwardLoop_Invalid)

lemma endDateFor_invalid:
  "(if firstHalf then h1End t else termEnd t) = InvalidDate \<Longrightarrow>
   endDateFor tz t s firstHalf = None"
  by (simp add: endDateFor_def del: getTime.simps) (simp add: backwardLoop_Invalid)

section \<open>The claims\<close>

subsection \<open>C1: the date a slot ends on\<close>

text \<open>
  Claim C1, as amended. Let the term's end (its first-half end when \<open>firstHalf\<close> is
  true) be a valid Date at least a week inside the range of time values, let the
  slot's index be in \<open>[0, 149]\<close>, and let \<open>D\<close> be the last day on or before the end
  whose weekday is the slot's. When the year of day \<open>D + 1\<close> is outside 0 to 99,
  \<open>endDateFor\<close> returns day \<open>D + 1\<close> at the slot's time of day, which is after the
  slot's occurrence on day \<open>D\<close> and within 7 days of it.
\<close>

theorem endDateFor_day_after_last_matching:
  assumes "(if firstHalf then h1End t else termEnd t) = DateAt t0"
    and "well_inside tz t0"
    and "0 \<le> slot s" "slot s \<le> 149"
    and "plain_year (YearFromDay (lastOnOrBefore (weekday s) (Day t0) + 1))"
  shows "let D = lastOnOrBefore (weekday s) (Day t0);
             occurrence = MakeDate D (spec_time (slot s));
             returned = MakeDate (D + 1) (spec_time (slot s))
         in D \<le> Day t0 \<and> dayOfWeek D = weekday s \<and>
            (\<forall>n. D < n \<and> n \<le> Day t0 \<longrightarrow> dayOfWeek n \<noteq> weekday s) \<and>
            endDateFor tz t s firstHalf = Some (DateAt returned) \<and>
            occurrence < returned \<and> returned \<le> occurrence + 7 * msPerDay"
proof -
  define D where "D = lastOnOrBefore (weekday s) (Day t0)"
  have wd: "0 \<le> weekday s" "weekday s \<le> 6"
    using weekday_range[OF assms(3,4)] by linarith+
  have le: "D \<le> Day t0" unfolding D_def by (rule lastOnOrBefore_le)
  have ge: "Day t0 - 6 \<le> D" unfolding D_def by (rule lastOnOrBefore_ge)
  have hit: "dayOfWeek D = weekday s" unfolding D_def by (rule dayOfWeek_lastOnOrBefore[OF wd])
  have last: "\<forall>n. D < n \<and> n \<le> Day t0 \<longrightarrow> dayOfWeek n \<noteq> weekday s"
    unfolding D_def using lastOnOrBefore_last by blast
  have copy: "Date_of_value tz (getTime tz (if firstHalf then h1End t else termEnd t)) = DateAt t0"
    using assms(1,2) by (simp add: copy_DateAt well_inside_imp_representable del: getTime.simps)
  define t1 where "t1 = t0 - (Day t0 - D) * msPerDay"
  have loop: "backwardLoop tz (weekday s) (DateAt t0) = Some (DateAt t1)"
    unfolding t1_def D_def by (rule backwardLoop_last[OF wd assms(2)])
  have t1: "t1 + msPerDay = t0 + (D + 1 - Day t0) * msPerDay"
    by (simp add: t1_def algebra_simps)
  have "- 7 * msPerDay \<le> (D + 1 - Day t0) * msPerDay" "(D + 1 - Day t0) * msPerDay \<le> 7 * msPerDay"
    using le ge by (simp_all add: msPerDay_def)
  then have "representable tz (t1 + msPerDay)"
    unfolding t1 using assms(2) by (intro well_inside_representable)
  then have step: "forwardStep tz (DateAt t1) = DateAt (t1 + msPerDay)"
    by (simp add: forwardStep_DateAt clipLocal_representable)
  have D1: "Day (t1 + msPerDay) = D + 1"
    unfolding t1 by (simp add: Day_shift)
  have py: "plain_year (YearFromTime (t1 + msPerDay))"
    using assms(5) by (simp add: YearFromTime_def D1 D_def)
  have rep: "representable tz (MakeDate (Day (t1 + msPerDay)) (spec_time (slot s)))"
    unfolding D1 using assms(2) ge le spec_time_range[of "slot s"]
    by (intro near_representable) auto
  have "onDate tz s (DateAt (t1 + msPerDay)) = DateAt (MakeDate (D + 1) (spec_time (slot s)))"
    using onDate_spec[OF py assms(3) rep] by (simp add: D1)
  then have res: "endDateFor tz t s firstHalf = Some (DateAt (MakeDate (D + 1) (spec_time (slot s))))"
    by (simp add: endDateFor_def copy loop step)
  have diff: "MakeDate (D + 1) (spec_time (slot s)) = MakeDate D (spec_time (slot s)) + msPerDay"
    by (simp add: MakeDate_def algebra_simps)
  have "MakeDate D (spec_time (slot s)) < MakeDate (D + 1) (spec_time (slot s))"
    "MakeDate (D + 1) (spec_time (slot s)) \<le> MakeDate D (spec_time (slot s)) + 7 * msPerDay"
    unfolding diff by (simp_all add: msPerDay_def)
  then show ?thesis
    using le hit last res by (simp add: D_def Let_def)
qed

text \<open>
  Slot 2 (Monday 9:00 AM) in the fall term of 2022, which ends on Wednesday
  14 December: the last Monday is 12 December, and the Date returned is
  13 December at 9:00, time value 1670922000000.
\<close>

theorem endDateFor_day_after_last_matching_witness:
  "endDateFor 0 term_f22 \<lparr>slot = 2\<rparr> False = Some (DateAt 1670922000000)"
proof -
  have d: "(if False then h1End term_f22 else termEnd term_f22) = DateAt 1670976000000"
    by code_simp
  have w: "well_inside 0 1670976000000" by code_simp
  have y: "plain_year (YearFromDay (lastOnOrBefore (weekday \<lparr>slot = 2\<rparr>) (Day 1670976000000) + 1))"
    by code_simp
  have r: "MakeDate (lastOnOrBefore (weekday \<lparr>slot = 2\<rparr>) (Day 1670976000000) + 1)
             (spec_time 2) = 1670922000000"
    by code_simp
  show ?thesis
    using endDateFor_day_after_last_matching[OF d w _ _ y] by (simp add: Let_def r)
qed

text \<open>
  As stated, for every valid end, the claim fails in the years 0 to 99 and at the
  limit of the range of time values. The term \<open>term_year_50\<close> ends on Thursday
  12 May 0050 (day number -701134); the last Monday on or before it is 9 May 0050
  (day number -701137), where slot 0 is at local time value -60578208000000. The
  source returns 10 May 1950, more than 1900 years after that occurrence. The
  first half of \<open>term_range_limits\<close> ends on the first day a Date can hold, a
  Tuesday; for the Monday slot 0 the search leaves the range, the Date becomes
  invalid and the loop does not end.
\<close>

theorem endDateFor_counterexample:
  "termEnd term_year_50 = DateAt (- 60577977600000) \<and>
   Day (- 60577977600000) = - 701134 \<and>
   lastOnOrBefore (weekday \<lparr>slot = 0\<rparr>) (- 701134) = - 701137 \<and>
   MakeDate (- 701137) (spec_time 0) = - 60578208000000 \<and>
   endDateFor 0 term_year_50 \<lparr>slot = 0\<rparr> False = Some (DateAt (- 619977600000)) \<and>
   getFullYear (DateAt (- 619977600000)) = Some 1950 \<and>
   \<not> (- 619977600000 \<le> - 60578208000000 + 7 * msPerDay) \<and>
   h1End term_range_limits = DateAt (- 8640000000000000) \<and>
   endDateFor 0 term_range_limits \<lparr>slot = 0\<rparr> True = None"
proof -
  have a: "termEnd term_year_50 = DateAt (- 60577977600000) \<and>
      Day (- 60577977600000) = - 701134 \<and>
      lastOnOrBefore (weekday \<lparr>slot = 0\<rparr>) (- 701134) = - 701137 \<and>
      MakeDate (- 701137) (spec_time 0) = - 60578208000000 \<and>
      endDateFor 0 term_year_50 \<lparr>slot = 0\<rparr> False = Some (DateAt (- 619977600000)) \<and>
      getFullYear (DateAt (- 619977600000)) = Some 1950 \<and>
      \<not> (- 619977600000 \<le> - 60578208000000 + 7 * msPerDay)"
    by code_simp
  have s: "h1End term_range_limits = DateAt (- 8640000000000000)" by code_simp
  have c: "Date_of_value 0 (getTime 0 (DateAt (- 8640000000000000))) =
      DateAt (- 8640000000000000)"
    by code_simp
  have w: "weekday \<lparr>slot = 0\<rparr> = 1" "WeekDay (- 8640000000000000) \<noteq> 1"
    "backwardStep 0 (DateAt (- 8640000000000000)) = InvalidDate"
    by code_simp+
  have "backwardLoop 0 1 (DateAt (- 8640000000000000)) = None"
    by (subst backwardLoop.simps) (simp add: w backwardLoop_Invalid)
  then have "endDateFor 0 term_range_limits \<lparr>slot = 0\<rparr> True = None"
    by (simp add: endDateFor_def s c w(1) del: getTime.simps Date_of_value.simps)
  then show ?thesis using a s by simp
qed

subsection \<open>C2: the date a slot starts on\<close>

text \<open>
  Claim C2, as amended. Let the term's start (its second-half start when
  \<open>secondHalf\<close> is true) be a valid Date at least a week inside the range of time
  values, let the slot's index be in \<open>[0, 149]\<close>, and let \<open>D\<close> be the first day
  on or after the start whose weekday is the slot's. When the year of \<open>D\<close> is outside
  0 to 99, \<open>startDateFor\<close> returns day \<open>D\<close> at the slot's time of day.
\<close>

theorem startDateFor_first_matching:
  assumes "(if secondHalf then h2Start t else start t) = DateAt t0"
    and "well_inside tz t0"
    and "0 \<le> slot s" "slot s \<le> 149"
    and "plain_year (YearFromDay (firstOnOrAfter (weekday s) (Day t0)))"
  shows "let D = firstOnOrAfter (weekday s) (Day t0) in
           Day t0 \<le> D \<and> dayOfWeek D = weekday s \<and>
           (\<forall>n. Day t0 \<le> n \<and> n < D \<longrightarrow> dayOfWeek n \<noteq> weekday s) \<and>
           startDateFor tz t s secondHalf = Some (DateAt (MakeDate D (spec_time (slot s))))"
proof -
  define D where "D = firstOnOrAfter (weekday s) (Day t0)"
  have wd: "0 \<le> weekday s" "weekday s \<le> 6"
    using weekday_range[OF assms(3,4)] by linarith+
  have ge: "Day t0 \<le> D" unfolding D_def by (rule firstOnOrAfter_ge)
  have le: "D \<le> Day t0 + 6" unfolding D_def by (rule firstOnOrAfter_le)
  have hit: "dayOfWeek D = weekday s" unfolding D_def by (rule dayOfWeek_firstOnOrAfter[OF wd])
  have first: "\<forall>n. Day t0 \<le> n \<and> n < D \<longrightarrow> dayOfWeek n \<noteq> weekday s"
    unfolding D_def using firstOnOrAfter_first by blast
  have copy: "Date_of_value tz (getTime tz (if secondHalf then h2Start t else start t)) = DateAt t0"
    using assms(1,2) by (simp add: copy_DateAt well_inside_imp_representable del: getTime.simps)
  define t1 where "t1 = t0 + (D - Day t0) * msPerDay"
  have loop: "forwardLoop tz (weekday s) (DateAt t0) = Some (DateAt t1)"
    unfolding t1_def D_def by (rule forwardLoop_first[OF wd assms(2)])
  have D1: "Day t1 = D" unfolding t1_def by (simp add: Day_shift)
  have py: "plain_year (YearFromTime t1)"
    using assms(5) by (simp add: YearFromTime_def D1 D_def)
  have rep: "representable tz (MakeDate (Day t1) (spec_time (slot s)))"
    unfolding D1 using assms(2) ge le spec_time_range[of "slot s"]
    by (intro near_representable) auto
  have "onDate tz s (DateAt t1) = DateAt (MakeDate D (spec_time (slot s)))"
    using onDate_spec[OF py assms(3) rep] by (simp add: D1)
  then have "startDateFor tz t s secondHalf = Some (DateAt (MakeDate D (spec_time (slot s))))"
    by (simp add: startDateFor_def copy loop)
  then show ?thesis
    using ge hit first by (simp add: D_def Let_def)
qed

text \<open>
  Slot 2 (Monday 9:00 AM) in the fall term of 2022, which starts on Wednesday
  7 September: the first Monday is 12 September, at 9:00 time value 1662973200000.
\<close>

theorem startDateFor_first_matching_witness:
  "startDateFor 0 term_f22 \<lparr>slot = 2\<rparr> False = Some (DateAt 1662973200000)"
proof -
  have d: "(if False then h2Start term_f22 else start term_f22) = DateAt 1662508800000"
    by code_simp
  have w: "well_inside 0 1662508800000" by code_simp
  have y: "plain_year (YearFromDay (firstOnOrAfter (weekday \<lparr>slot = 2\<rparr>) (Day 1662508800000)))"
    by code_simp
  have r: "MakeDate (firstOnOrAfter (weekday \<lparr>slot = 2\<rparr>) (Day 1662508800000))
             (spec_time 2) = 1662973200000"
    by code_simp
  show ?thesis
    using startDateFor_first_matching[OF d w _ _ y] by (simp add: Let_def r)
qed

text \<open>
  As stated, for every valid start, the claim fails in the years 0 to 99 and at
  the limit of the range of time values. The term \<open>term_year_50\<close> starts on
  3 January 0050, a Monday (day number -701263); for slot 0 (Monday 8:00 AM) the
  source returns 3 January 1950, a Tuesday. The term \<open>term_range_limits\<close> starts
  on the last day a Date can hold, a Saturday; for the Monday slot 0 the search
  leaves the range, the Date becomes invalid and the loop does not end.
\<close>

theorem startDateFor_counterexample:
  "start term_year_50 = DateAt (- 60589123200000) \<and>
   Day (- 60589123200000) = - 701263 \<and>
   dayOfWeek (- 701263) = weekday \<lparr>slot = 0\<rparr> \<and>
   startDateFor 0 term_year_50 \<lparr>slot = 0\<rparr> False = Some (DateAt (- 630950400000)) \<and>
   getFullYear (DateAt (- 630950400000)) = Some 1950 \<and>
   getDay (DateAt (- 630950400000)) = Some 2 \<and>
   start term_range_limits = DateAt 8640000000000000 \<and>
   startDateFor 0 term_range_limits \<lparr>slot = 0\<rparr> False = None"
proof -
  have a: "start term_year_50 = DateAt (- 60589123200000) \<and>
      Day (- 60589123200000) = - 701263 \<and>
      dayOfWeek (- 701263) = weekday \<lparr>slot = 0\<rparr> \<and>
      startDateFor 0 term_year_50 \<lparr>slot = 0\<rparr> False = Some (DateAt (- 630950400000)) \<and>
      getFullYear (DateAt (- 630950400000)) = Some 1950 \<and>
      getDay (DateAt (- 630950400000)) = Some 2"
    by code_simp
  have s: "start term_range_limits = DateAt 8640000000000000" by code_simp
  have c: "Date_of_value 0 (getTime 0 (DateAt 8640000000000000)) = DateAt 8640000000000000"
    by code_simp
  have w: "weekday \<lparr>slot = 0\<rparr> = 1" "WeekDay 8640000000000000 \<noteq> 1"
    "forwardStep 0 (DateAt 8640000000000000) = InvalidDate"
    by code_simp+
  have "forwardLoop 0 1 (DateAt 8640000000000000) = None"
    by (subst forwardLoop.simps) (simp add: w forwardLoop_Invalid)
  then have "startDateFor 0 term_range_limits \<lparr>slot = 0\<rparr> False = None"
    by (simp add: startDateFor_def s c w(1) del: getTime.simps Date_of_value.simps)
  then show ?thesis using a s by simp
qed

subsection \<open>C3: the dates a slot does not run on\<close>




subsection \<open>C4: weekday and time of day of a slot\<close>

text \<open>
  Claim C4, as amended. For every index \<open>i\<close> in \<open>[0, 149]\<close> the slot has weekday
  \<open>floor(i / 30) + 1\<close>, and \<open>onDate\<close> projects it onto any valid Date whose year is
  outside 0 to 99, and whose projection is a time value in range, at hour
  \<open>floor((i mod 30) / 2) + 8\<close> and minute \<open>((i mod 30) mod 2) * 30\<close> of that Date's
  year, month and day, whatever the weekday and the time of the Date.
\<close>

theorem onDate_time_of_day:
  assumes "0 \<le> i" "i \<le> 149"
    and "plain_year (YearFromTime t)"
    and "representable tz (MakeDate (Day t) (spec_time i))"
  shows "weekday \<lparr>slot = i\<rparr> = i div 30 + 1 \<and>
         getHours (onDate tz \<lparr>slot = i\<rparr> (DateAt t)) = Some ((i mod 30) div 2 + 8) \<and>
         getMinutes (onDate tz \<lparr>slot = i\<rparr> (DateAt t)) = Some (((i mod 30) mod 2) * 30) \<and>
         getFullYear (onDate tz \<lparr>slot = i\<rparr> (DateAt t)) = getFullYear (DateAt t) \<and>
         getMonth (onDate tz \<lparr>slot = i\<rparr> (DateAt t)) = getMonth (DateAt t) \<and>
         getDate (onDate tz \<lparr>slot = i\<rparr> (DateAt t)) = getDate (DateAt t)"
proof -
  let ?r = "MakeDate (Day t) (spec_time i)"
  have on: "onDate tz \<lparr>slot = i\<rparr> (DateAt t) = DateAt ?r"
    using assms onDate_spec[of t "\<lparr>slot = i\<rparr>" tz] by simp
  have "Day ?r = Day t"
    using spec_time_range[of i] by (simp add: Day_MakeDate)
  note same = same_Day_fields[OF this]
  have hr: "HourFromTime ?r = spec_hour i"
    unfolding spec_time_def
    using spec_hour_range[of i] spec_minute_range[of i] by (intro HourFromTime_MakeDate) auto
  have mi: "MinFromTime ?r = spec_minute i"
    unfolding spec_time_def
    using spec_minute_range[of i] by (intro MinFromTime_MakeDate) auto
  show ?thesis
    by (simp add: on same hr mi weekday_def spec_hour_def spec_minute_def)
qed

text \<open>
  The scenario of the specification: slot 2 (Monday 9:00 AM) on 12 September 2022,
  local midnight being time value 1662940800000 in a zone with offset 0.
\<close>

theorem onDate_time_of_day_witness:
  "getHours (onDate 0 \<lparr>slot = 2\<rparr> (DateAt 1662940800000)) = Some 9 \<and>
   getMinutes (onDate 0 \<lparr>slot = 2\<rparr> (DateAt 1662940800000)) = Some 0 \<and>
   getFullYear (onDate 0 \<lparr>slot = 2\<rparr> (DateAt 1662940800000)) = Some 2022 \<and>
   getMonth (onDate 0 \<lparr>slot = 2\<rparr> (DateAt 1662940800000)) = Some 8 \<and>
   getDate (onDate 0 \<lparr>slot = 2\<rparr> (DateAt 1662940800000)) = Some 12"
proof -
  have y: "plain_year (YearFromTime 1662940800000)" by code_simp
  have r: "representable 0 (MakeDate (Day 1662940800000) (spec_time 2))" by code_simp
  have f: "YearFromTime 1662940800000 = 2022" "MonthFromTime 1662940800000 = 8"
    "DateFromTime 1662940800000 = 12"
    by code_simp+
  show ?thesis
    using onDate_time_of_day[of 2 1662940800000 0, OF _ _ y r] by (simp add: f)
qed

text \<open>
  As stated, for any date, the claim fails in the years 0 to 99 and at the limit
  of the range of time values: the Date constructor reads the year 50 that
  \<open>getFullYear\<close> returns for 1 January 0050 (local time value -60589296000000)
  as 1950; and 8:00 on the last day a Date can hold, which begins at time value
  8640000000000000, is not a time value, so that the projection is invalid.
\<close>

theorem onDate_counterexample:
  "getFullYear (DateAt (- 60589296000000)) = Some 50 \<and>
   getMonth (DateAt (- 60589296000000)) = Some 0 \<and>
   getDate (DateAt (- 60589296000000)) = Some 1 \<and>
   getFullYear (onDate 0 \<lparr>slot = 0\<rparr> (DateAt (- 60589296000000))) = Some 1950 \<and>
   getFullYear (DateAt 8640000000000000) = Some 275760 \<and>
   onDate 0 \<lparr>slot = 0\<rparr> (DateAt 8640000000000000) = InvalidDate"
  by code_simp

subsection \<open>C5: the weekday searches end\<close>

text \<open>
  Claim C5, as amended. Let the Dates that \<open>startDateFor\<close> and \<open>endDateFor\<close> start
  from be valid and at least a week inside the range of time values. Then each
  function returns exactly when the slot's weekday is a value of \<open>getDay\<close>, that
  is when the slot's index is in \<open>[-30, 179]\<close>, and then its loop ends after at
  most 6 steps. The loops work on a copy of the term's Date, here \<open>DateAt a\<close> and
  \<open>DateAt b\<close>.
\<close>

theorem search_loops_terminate:
  assumes "(if secondHalf then h2Start t else start t) = DateAt a" "well_inside tz a"
    and "(if firstHalf then h1End t else termEnd t) = DateAt b" "well_inside tz b"
  shows "(startDateFor tz t s secondHalf \<noteq> None \<longleftrightarrow> - 30 \<le> slot s \<and> slot s \<le> 179) \<and>
         (endDateFor tz t s firstHalf \<noteq> None \<longleftrightarrow> - 30 \<le> slot s \<and> slot s \<le> 179) \<and>
         (- 30 \<le> slot s \<and> slot s \<le> 179 \<longrightarrow>
            (\<exists>k\<le>6. forwardLoop tz (weekday s) (DateAt a) =
                      Some ((forwardStep tz ^^ k) (DateAt a))) \<and>
            (\<exists>k\<le>6. backwardLoop tz (weekday s) (DateAt b) =
                      Some ((backwardStep tz ^^ k) (DateAt b))))"
proof (intro conjI impI)
  show "(startDateFor tz t s secondHalf \<noteq> None) = (- 30 \<le> slot s \<and> slot s \<le> 179)"
    using startDateFor_returns_iff[OF assms(1,2)] weekday_is_getDay_value by simp
  show "(endDateFor tz t s firstHalf \<noteq> None) = (- 30 \<le> slot s \<and> slot s \<le> 179)"
    using endDateFor_returns_iff[OF assms(3,4)] weekday_is_getDay_value by simp
next
  assume "- 30 \<le> slot s \<and> slot s \<le> 179"
  then have wd: "0 \<le> weekday s" "weekday s \<le> 6"
    using weekday_is_getDay_value[of s] by simp_all
  show "\<exists>k\<le>6. forwardLoop tz (weekday s) (DateAt a) = Some ((forwardStep tz ^^ k) (DateAt a))"
    by (rule forwardLoop_steps[OF wd assms(2)])
  show "\<exists>k\<le>6. backwardLoop tz (weekday s) (DateAt b) = Some ((backwardStep tz ^^ k) (DateAt b))"
    by (rule backwardLoop_steps[OF wd assms(4)])
qed

text \<open>
  Slot 179 has weekday 6, Saturday: in the fall term of 2022 both searches end.
\<close>

theorem search_loops_terminate_witness:
  "startDateFor 0 term_f22 \<lparr>slot = 179\<rparr> False \<noteq> None \<and>
   endDateFor 0 term_f22 \<lparr>slot = 179\<rparr> False \<noteq> None"
proof -
  have a: "(if False then h2Start term_f22 else start term_f22) = DateAt 1662508800000"
    by code_simp
  have b: "(if False then h1End term_f22 else termEnd term_f22) = DateAt 1670976000000"
    by code_simp
  have wa: "well_inside 0 1662508800000" and wb: "well_inside 0 1670976000000"
    by code_simp+
  show ?thesis
    using search_loops_terminate[OF a wa b wb, of "\<lparr>slot = 179\<rparr>"] by simp
qed

text \<open>
  As stated, for every slot the interface accepts, the claim fails. Slot 180 has
  weekday 7, and the slot that \<open>fromDayString\<close> builds from two labels that are
  in neither table has number -31 and weekday -1; \<open>getDay\<close> never returns either,
  and the loops do not end. Nor do they end, for any slot, in a term whose Dates
  are invalid.
\<close>

theorem search_loops_counterexample:
  "weekday \<lparr>slot = 180\<rparr> = 7 \<and>
   startDateFor 0 term_f22 \<lparr>slot = 180\<rparr> False = None \<and>
   endDateFor 0 term_f22 \<lparr>slot = 180\<rparr> False = None \<and>
   dayString_number ''Sat'' ''11:00 PM'' = - 31 \<and>
   startDateFor 0 term_f22 \<lparr>slot = - 31\<rparr> False = None \<and>
   endDateFor 0 term_f22 \<lparr>slot = - 31\<rparr> False = None \<and>
   startDateFor 0 term_no_dates \<lparr>slot = 0\<rparr> False = None \<and>
   endDateFor 0 term_no_dates \<lparr>slot = 0\<rparr> False = None"
proof -
  have n: "dayString_number ''Sat'' ''11:00 PM'' = - 31" by code_simp
  have f: "forwardLoop 0 7 d = None" "forwardLoop 0 (- 1) d = None" for d
    by (simp_all add: forwardLoop_no_weekday)
  have b: "backwardLoop 0 7 d = None" "backwardLoop 0 (- 1) d = None" for d
    by (simp_all add: backwardLoop_no_weekday)
  have i: "startDateFor 0 term_no_dates \<lparr>slot = 0\<rparr> False = None"
    "endDateFor 0 term_no_dates \<lparr>slot = 0\<rparr> False = None"
    by (simp_all add: startDateFor_invalid endDateFor_invalid term_no_dates_def)
  have "weekday \<lparr>slot = 180\<rparr> = 7 \<and>
      startDateFor 0 term_f22 \<lparr>slot = 180\<rparr> False = None \<and>
      endDateFor 0 term_f22 \<lparr>slot = 180\<rparr> False = None \<and>
      startDateFor 0 term_f22 \<lparr>slot = - 31\<rparr> False = None \<and>
      endDateFor 0 term_f22 \<lparr>slot = - 31\<rparr> False = None"
    by (simp add: startDateFor_def endDateFor_def weekday_def f b del: getTime.simps)
  then show ?thesis using n i by simp
qed

subsection \<open>C6: the extra date of a Monday slot\<close>

text \<open>
  Claim C6, as amended. \<open>rDateFor\<close> returns a Date if and only if the slot's
  weekday is 1 and the term has a \<open>mondaySchedule\<close>; otherwise it returns nothing.
  When \<open>mondaySchedule\<close> is a valid Date whose year is outside 0 to 99 and whose
  projection is a time value in range, the Date returned is \<open>mondaySchedule\<close>
  projected onto the slot's time of day: its year, month and day at the slot's
  hour and minute. When \<open>mondaySchedule\<close> is an invalid Date, so is the Date
  returned.
\<close>

theorem rDateFor_monday_schedule:
  "(rDateFor tz t s \<noteq> None \<longleftrightarrow> weekday s = 1 \<and> mondaySchedule t \<noteq> None) \<and>
   (\<forall>m. weekday s = 1 \<and> mondaySchedule t = Some (DateAt m) \<and>
        plain_year (YearFromTime m) \<and>
        representable tz (MakeDate (Day m) (spec_time (slot s))) \<longrightarrow>
      rDateFor tz t s = Some (DateAt (MakeDate (Day m) (spec_time (slot s))))) \<and>
   (weekday s = 1 \<and> mondaySchedule t = Some InvalidDate \<longrightarrow>
      rDateFor tz t s = Some InvalidDate)"
proof (intro conjI allI impI)
  show "(rDateFor tz t s \<noteq> None) = (weekday s = 1 \<and> mondaySchedule t \<noteq> None)"
    by (auto simp: rDateFor_def split: option.splits)
next
  fix m
  assume a: "weekday s = 1 \<and> mondaySchedule t = Some (DateAt m) \<and>
      plain_year (YearFromTime m) \<and>
      representable tz (MakeDate (Day m) (spec_time (slot s)))"
  then have "0 \<le> slot s" using weekday_1_nonneg by blast
  then have "onDate tz s (DateAt m) = DateAt (MakeDate (Day m) (spec_time (slot s)))"
    using a onDate_spec[of m s tz] by blast
  then show "rDateFor tz t s = Some (DateAt (MakeDate (Day m) (spec_time (slot s))))"
    using a by (simp add: rDateFor_def)
next
  assume "weekday s = 1 \<and> mondaySchedule t = Some InvalidDate"
  then show "rDateFor tz t s = Some InvalidDate"
    by (simp add: rDateFor_def onDate_def)
qed

text \<open>
  In the fall term of 2022 with its Monday schedule on 11 October: the Monday
  slot 2 gets 11 October 9:00, the Tuesday slot 32 nothing; and a Monday slot gets
  nothing in a term without a Monday schedule.
\<close>

theorem rDateFor_monday_schedule_witness:
  "rDateFor 0 term_f22 \<lparr>slot = 2\<rparr> = Some (DateAt 1665478800000) \<and>
   rDateFor 0 term_f22 \<lparr>slot = 32\<rparr> = None \<and>
   rDateFor 0 term_no_dates \<lparr>slot = 2\<rparr> = None"
proof -
  have m: "weekday \<lparr>slot = 2\<rparr> = 1 \<and> mondaySchedule term_f22 = Some (DateAt 1665446400000) \<and>
      plain_year (YearFromTime 1665446400000) \<and>
      representable 0 (MakeDate (Day 1665446400000) (spec_time (slot \<lparr>slot = 2\<rparr>)))"
    by code_simp
  have "rDateFor 0 term_f22 \<lparr>slot = 2\<rparr> =
      Some (DateAt (MakeDate (Day 1665446400000) (spec_time (slot \<lparr>slot = 2\<rparr>))))"
    using rDateFor_monday_schedule[of 0 term_f22 "\<lparr>slot = 2\<rparr>"] m by blast
  moreover have "MakeDate (Day 1665446400000) (spec_time (slot \<lparr>slot = 2\<rparr>)) = 1665478800000"
    by code_simp
  moreover have "weekday \<lparr>slot = 32\<rparr> \<noteq> 1" by code_simp
  then have "rDateFor 0 term_f22 \<lparr>slot = 32\<rparr> = None"
    using rDateFor_monday_schedule[of 0 term_f22 "\<lparr>slot = 32\<rparr>"] by blast
  moreover have "mondaySchedule term_no_dates = None" by code_simp
  then have "rDateFor 0 term_no_dates \<lparr>slot = 2\<rparr> = None"
    using rDateFor_monday_schedule[of 0 term_no_dates "\<lparr>slot = 2\<rparr>"] by blast
  ultimately show ?thesis by simp
qed

text \<open>
  As stated, for every term, the claim fails in the years 0 to 99 and at the limit
  of the range of time values. With Tuesday 4 January 0050 on Monday schedule,
  the Monday slot 0 gets 4 January 1950, which is not that date at the slot's
  time; with the last day a Date can hold on Monday schedule, it gets an invalid
  Date.
\<close>

theorem rDateFor_counterexample:
  "weekday \<lparr>slot = 0\<rparr> = 1 \<and>
   mondaySchedule term_year_50_dates = Some (DateAt (- 60589036800000)) \<and>
   getFullYear (DateAt (- 60589036800000)) = Some 50 \<and>
   getMonth (DateAt (- 60589036800000)) = Some 0 \<and>
   getDate (DateAt (- 60589036800000)) = Some 4 \<and>
   rDateFor 0 term_year_50_dates \<lparr>slot = 0\<rparr> = Some (DateAt (- 630864000000)) \<and>
   getFullYear (DateAt (- 630864000000)) = Some 1950 \<and>
   mondaySchedule term_range_limits_dates = Some (DateAt 8640000000000000) \<and>
   rDateFor 0 term_range_limits_dates \<lparr>slot = 0\<rparr> = Some InvalidDate"
  by code_simp

subsection \<open>C7: labels to slot and back\<close>

text \<open>
  Claim C7. For every weekday label \<open>d\<close> of the weekday table and every time label
  \<open>t\<close> of the time table, the Slot that \<open>fromDayString d t\<close> returns has
  \<open>dayString\<close> \<open>d\<close> and \<open>timeString\<close> \<open>t\<close>. The Slot is an object of the store,
  whose cache is sound.
\<close>

theorem fromDayString_roundtrip:
  assumes "d \<in> set WEEKDAY_STRINGS" "t \<in> set TIMESLOT_STRINGS" "store_ok h"
  shows "case fromDayString h d t of
           (r, h') \<Rightarrow> \<exists>s. deref h' r = Some s \<and> dayString s = Some d \<and> timeString s = Some t"
proof -
  obtain r h' where f: "fromSlotNumber h (dayString_number d t) = (r, h')"
    by (cases "fromSlotNumber h (dayString_number d t)")
  have "deref h' r = Some \<lparr>slot = dayString_number d t\<rparr>"
    by (rule fromSlotNumber_deref(1)[OF assms(3) f])
  then show ?thesis
    using dayString_timeString_number[OF assms(1,2)] by (simp add: fromDayString_def f)
qed

text \<open>Monday 9:00 AM, in the store the module starts with.\<close>

theorem fromDayString_roundtrip_witness:
  "case fromDayString empty_store ''Mon'' ''9:00 AM'' of
     (r, h') \<Rightarrow> \<exists>s. deref h' r = Some s \<and> dayString s = Some ''Mon'' \<and>
                    timeString s = Some ''9:00 AM''"
proof -
  have d: "''Mon'' \<in> set WEEKDAY_STRINGS" by (simp add: WEEKDAY_STRINGS_def)
  have t: "''9:00 AM'' \<in> set TIMESLOT_STRINGS" unfolding TIMESLOT_STRINGS_eq by simp
  show ?thesis by (rule fromDayString_roundtrip[OF d t store_ok_empty])
qed

subsection \<open>C8: one object for each slot\<close>

text \<open>
  Claim C8 fails on the source. The comment on \<^verbatim>\<open>SLOT_OBJECTS\<close> says that the module
  maintains only one copy of each slot object, and \<^verbatim>\<open>fromSlotNumber\<close>,
  \<^verbatim>\<open>fromDayString\<close> and \<^verbatim>\<open>add\<close> return the cached object (lemmas
  \<open>fromSlotNumber_again\<close> and \<open>fromSlotNumber_keeps\<close>). \<^verbatim>\<open>fromStartDate\<close> calls
  \<^verbatim>\<open>new Slot\<close> instead: after \<^verbatim>\<open>fromSlotNumber(0)\<close>, the call of \<^verbatim>\<open>fromStartDate\<close> on
  Monday 1 January 2001, 8:00 returns a second object with slot number 0, which is
  not the one the cache holds and \<^verbatim>\<open>fromSlotNumber(0)\<close> returns.
\<close>

theorem fromStartDate_fresh_object:
  "(case fromSlotNumber empty_store 0 of
      (r1, h1) \<Rightarrow>
        (case fromStartDate h1 (Date_of_fields 0 (Some 2001) (Some 0) (Some 1) 8 0) of
           None \<Rightarrow> False
         | Some (r2, h2) \<Rightarrow>
             r2 \<noteq> r1 \<and> deref h2 r2 = Some \<lparr>slot = 0\<rparr> \<and> deref h2 r1 = Some \<lparr>slot = 0\<rparr> \<and>
             SLOT_OBJECTS h2 0 = Some r1 \<and> fst (fromSlotNumber h2 0) = r1))"
proof -
  have "startDate_number (Date_of_fields 0 (Some 2001) (Some 0) (Some 1) 8 0) = Some 0"
    by code_simp
  then show ?thesis
    by (simp add: fromStartDate_def fromSlotNumber_def new_Slot_def empty_store_def deref_def)
qed

subsection \<open>C9: labels that are not in the tables\<close>

text \<open>
  Claim C9, as amended. When at least one of the two labels is not in its table,
  \<open>fromDayString\<close> builds the slot with number \<open>30 * dayIndex + timeIndex\<close>, where a
  label that is not found has index -1. The number is negative exactly when the
  weekday label is not found or is \<open>Mon\<close>. For a weekday label from \<open>Tue\<close> to
  \<open>Fri\<close> with a time label that is not found it is \<open>30 * dayIndex - 1\<close>, between
  29 and 119: the last slot of the day before, which has no time label.
\<close>

theorem fromDayString_unmatched:
  assumes "day \<notin> set WEEKDAY_STRINGS \<or> time \<notin> set TIMESLOT_STRINGS"
  shows "fromDayString h day time = fromSlotNumber h (dayString_number day time) \<and>
         dayString_number day time =
           30 * indexOf WEEKDAY_STRINGS day + indexOf TIMESLOT_STRINGS time \<and>
         (day \<notin> set WEEKDAY_STRINGS \<longrightarrow> indexOf WEEKDAY_STRINGS day = - 1) \<and>
         (time \<notin> set TIMESLOT_STRINGS \<longrightarrow> indexOf TIMESLOT_STRINGS time = - 1) \<and>
         (dayString_number day time < 0 \<longleftrightarrow> day \<notin> set WEEKDAY_STRINGS \<or> day = ''Mon'') \<and>
         (day \<in> set WEEKDAY_STRINGS \<and> day \<noteq> ''Mon'' \<longrightarrow>
            29 \<le> dayString_number day time \<and> dayString_number day time \<le> 119 \<and>
            timeString \<lparr>slot = dayString_number day time\<rparr> = None)"
proof -
  let ?di = "indexOf WEEKDAY_STRINGS day" and ?ti = "indexOf TIMESLOT_STRINGS time"
  have ti_le: "?ti \<le> 28"
  proof (cases "time \<in> set TIMESLOT_STRINGS")
    case True
    then show ?thesis using indexOf_in(2)[OF True] by (simp add: length_TIMESLOT_STRINGS)
  next
    case False
    then show ?thesis by (simp add: indexOf_notin)
  qed
  have neg: "(dayString_number day time < 0) = (day \<notin> set WEEKDAY_STRINGS \<or> day = ''Mon'')"
    and mid: "day \<in> set WEEKDAY_STRINGS \<and> day \<noteq> ''Mon'' \<longrightarrow>
            29 \<le> dayString_number day time \<and> dayString_number day time \<le> 119 \<and>
            timeString \<lparr>slot = dayString_number day time\<rparr> = None"
  proof -
    show "(dayString_number day time < 0) = (day \<notin> set WEEKDAY_STRINGS \<or> day = ''Mon'')"
    proof (cases "day \<in> set WEEKDAY_STRINGS")
      case True
      then have ti: "?ti = - 1" using assms by (simp add: indexOf_notin)
      have "(30 * ?di + ?ti < 0) = (?di = 0)"
        using weekday_label_index(1)[OF True] unfolding ti by linarith
      then show ?thesis
        using True weekday_label_index(3)[OF True] by (simp add: dayString_number_def)
    next
      case False
      then have "?di = - 1" by (simp add: indexOf_notin)
      then show ?thesis using False ti_le by (simp add: dayString_number_def)
    qed
    show "day \<in> set WEEKDAY_STRINGS \<and> day \<noteq> ''Mon'' \<longrightarrow>
            29 \<le> dayString_number day time \<and> dayString_number day time \<le> 119 \<and>
            timeString \<lparr>slot = dayString_number day time\<rparr> = None"
    proof
      assume a: "day \<in> set WEEKDAY_STRINGS \<and> day \<noteq> ''Mon''"
      then have ti: "?ti = - 1" using assms by (simp add: indexOf_notin)
      have di: "1 \<le> ?di" "?di \<le> 4"
        using a weekday_label_index[of day] by auto
      have "29 \<le> dayString_number day time \<and> dayString_number day time \<le> 119"
        using di unfolding dayString_number_def ti by linarith
      moreover have "timeString \<lparr>slot = dayString_number day time\<rparr> = None"
        using timeString_last_slot[OF di(1)] by (simp add: dayString_number_def ti)
      ultimately show "29 \<le> dayString_number day time \<and> dayString_number day time \<le> 119 \<and>
            timeString \<lparr>slot = dayString_number day time\<rparr> = None"
        by simp
    qed
  qed
  show ?thesis
    using neg mid by (simp add: fromDayString_def dayString_number_def indexOf_notin)
qed

text \<open>A weekday label and a time label that are not found, on their own.\<close>

theorem fromDayString_unmatched_witness:
  "dayString_number ''Sat'' ''9:00 AM'' = - 28 \<and>
   dayString_number ''Mon'' ''11:00 PM'' = - 1 \<and>
   dayString_number ''Fri'' ''11:00 PM'' = 119"
proof -
  have a: "''Sat'' \<notin> set WEEKDAY_STRINGS \<or> ''9:00 AM'' \<notin> set TIMESLOT_STRINGS"
    by (simp add: WEEKDAY_STRINGS_def)
  have b: "t \<notin> set WEEKDAY_STRINGS \<or> ''11:00 PM'' \<notin> set TIMESLOT_STRINGS" for t
    unfolding TIMESLOT_STRINGS_eq by simp
  have i: "indexOf WEEKDAY_STRINGS ''Sat'' = - 1" "indexOf WEEKDAY_STRINGS ''Mon'' = 0"
    "indexOf WEEKDAY_STRINGS ''Fri'' = 4" "indexOf TIMESLOT_STRINGS ''9:00 AM'' = 2"
    "indexOf TIMESLOT_STRINGS ''11:00 PM'' = - 1"
    by code_simp+
  show ?thesis
    using fromDayString_unmatched[OF a, of empty_store]
      fromDayString_unmatched[OF b, of empty_store "''Mon''"]
      fromDayString_unmatched[OF b, of empty_store "''Fri''"]
    by (simp add: i)
qed

text \<open>
  As stated, with an invalid or negative index in every case, the claim fails:
  \<open>10:30 PM\<close> is not a time label, and with \<open>Tue\<close> it gives slot 29, an index in
  \<open>[0, 149]\<close>, the last slot of Monday.
\<close>

theorem fromDayString_unmatched_counterexample:
  "''10:30 PM'' \<notin> set TIMESLOT_STRINGS \<and>
   dayString_number ''Tue'' ''10:30 PM'' = 29 \<and>
   (case fromDayString empty_store ''Tue'' ''10:30 PM'' of
      (r, h) \<Rightarrow> deref h r = Some \<lparr>slot = 29\<rparr>) \<and>
   dayString \<lparr>slot = 29\<rparr> = Some ''Mon''"
proof -
  have n: "dayString_number ''Tue'' ''10:30 PM'' = 29" by code_simp
  have d: "dayString \<lparr>slot = 29\<rparr> = Some ''Mon''" by code_simp
  have "''10:30 PM'' \<notin> set TIMESLOT_STRINGS" unfolding TIMESLOT_STRINGS_eq by simp
  then show ?thesis
    by (simp add: n d fromDayString_def fromSlotNumber_def new_Slot_def empty_store_def
        deref_def)
qed

subsection \<open>C10: the label tables\<close>

text \<open>
  Claim C10, as amended. The table of time labels has exactly 29 elements, the
  labels of the times from 8:00 AM to 10:00 PM in steps of 30 minutes, and the
  table of weekday labels has exactly 5 elements.
\<close>

theorem label_tables:
  "length TIMESLOT_STRINGS = 29 \<and>
   TIMESLOT_STRINGS = map (\<lambda>k. time_label (480 + 30 * k)) [0..<29] \<and>
   hd TIMESLOT_STRINGS = ''8:00 AM'' \<and> last TIMESLOT_STRINGS = ''10:00 PM'' \<and>
   length WEEKDAY_STRINGS = 5"
  unfolding time_labels_eq unfolding TIMESLOT_STRINGS_eq WEEKDAY_STRINGS_def by simp

text \<open>As stated, with 30 time labels, the claim fails.\<close>

theorem label_tables_counterexample: "length TIMESLOT_STRINGS \<noteq> 30"
  unfolding TIMESLOT_STRINGS_eq by simp


end
